(* ===== verification/Prelude.thy ===== *)
theory Prelude
  imports Complex_Main "HOL-Library.Sublist"
begin

text \<open>
  Shared vocabulary of the development: the names of the model's basic types, the
  theorem collections the component theories feed, and the generic facts about lists
  that the search filters and the request queue of the screen controller rely on.
  Nothing here is specific to one component.
\<close>

section \<open>Types of the model\<close>

text \<open>
  Document identifiers of the local store (\<open>_id\<close> fields, the \<open>areaId\<close> and
  \<open>personId\<close> arguments of the handlers) are JavaScript strings; the development reads
  a JavaScript string as a list of code units restricted to Latin-1 (\<open>char\<close> is a
  byte here).
\<close>

type_synonym doc_id = string

section \<open>Theorem collections\<close>

named_theorems handler_simps "unfolding rules of the screen's event handlers"
named_theorems js_simps "unfolding rules of the JavaScript primitives"
named_theorems eval_simps "rules that evaluate the model on concrete inputs"

section \<open>Lists: capped filters\<close>

text \<open>
  A suggestion list of the screen is \<open>filtered.slice(0, 20)\<close>: a prefix of a filtered
  list. The following facts describe such a list without reference to how it is computed.
\<close>

lemma take_filter_subseq [intro, simp]: "subseq (take n (filter P xs)) xs"
  by (rule subseq_order.order_trans [OF prefix_imp_subseq [OF take_is_prefix] subseq_filter_left])

lemma in_take_filter [dest]: "x \<in> set (take n (filter P xs)) \<Longrightarrow> x \<in> set xs \<and> P x"
  using set_take_subset by fastforce

lemma find_Some_mem [dest]: "find P xs = Some x \<Longrightarrow> x \<in> set xs \<and> P x"
  by (induction xs) (auto split: if_splits)

lemma length_take_le [simp]: "length (take n xs) \<le> n"
  by simp

text \<open>
  Completeness of a capped filter: an element that satisfies the predicate is kept as long
  as fewer than \<open>n\<close> satisfying elements come before its first occurrence.
\<close>

lemma take_filter_complete:
  "x \<in> set xs \<Longrightarrow> P x \<Longrightarrow> length (filter P (takeWhile (\<lambda>y. y \<noteq> x) xs)) < n
    \<Longrightarrow> x \<in> set (take n (filter P xs))"
proof (induction xs arbitrary: n)
  case Nil
  then show ?case by simp
next
  case (Cons y ys)
  show ?case
  proof (cases "y = x")
    case True
    with Cons.prems(3) have "0 < n" by simp
    then obtain m where "n = Suc m" by (cases n) auto
    with True Cons.prems(2) show ?thesis by simp
  next
    case False
    with Cons.prems(1) have x: "x \<in> set ys" by simp
    show ?thesis
    proof (cases "P y")
      case True
      with False Cons.prems(3) obtain m where n: "n = Suc m"
        and m: "length (filter P (takeWhile (\<lambda>y. y \<noteq> x) ys)) < m"
        by (cases n) auto
      from x Cons.prems(2) m have "x \<in> set (take m (filter P ys))"
        by (rule Cons.IH)
      with True n show ?thesis by simp
    next
      case noP: False
      from False noP Cons.prems(3)
      have "length (filter P (takeWhile (\<lambda>y. y \<noteq> x) ys)) < n" by simp
      with x Cons.prems(2) have "x \<in> set (take n (filter P ys))"
        by (rule Cons.IH)
      with noP show ?thesis by simp
    qed
  qed
qed

text \<open>A stronger filter keeps an element it admits at least as far to the front.\<close>

lemma take_filter_antimono:
  assumes QP: "\<And>x. Q x \<Longrightarrow> P x" and Qa: "Q a"
  shows "a \<in> set (take n (filter P xs)) \<Longrightarrow> a \<in> set (take n (filter Q xs))"
proof (induction xs arbitrary: n)
  case Nil
  then show ?case by simp
next
  case (Cons y ys)
  show ?case
  proof (cases "P y")
    case True
    with Cons.prems obtain m where n: "n = Suc m" by (cases n) auto
    show ?thesis
    proof (cases "y = a")
      case True
      with Qa n show ?thesis by simp
    next
      case False
      with Cons.prems \<open>P y\<close> n have "a \<in> set (take m (filter P ys))" by simp
      then have "a \<in> set (take m (filter Q ys))" by (rule Cons.IH)
      moreover have "set (take m (filter Q ys)) \<subseteq> set (take n (filter Q (y # ys)))"
        using n set_take_subset_set_take [of m "Suc m" "filter Q ys"] by auto
      ultimately show ?thesis by blast
    qed
  next
    case False
    with QP have "\<not> Q y" by blast
    with False Cons.prems Cons.IH show ?thesis by simp
  qed
qed

text \<open>A subsequence of a list with distinct keys has distinct keys.\<close>

lemma subseq_distinct_map: "subseq xs ys \<Longrightarrow> distinct (map f ys) \<Longrightarrow> distinct (map f xs)"
proof (induction rule: list_emb.induct)
  case (list_emb_Nil ys)
  then show ?case by simp
next
  case (list_emb_Cons xs ys y)
  then show ?case by simp
next
  case (list_emb_Cons2 x y xs ys)
  then have "f x \<notin> f ` set xs" by (auto dest: list_emb_set)
  with list_emb_Cons2 show ?case by simp
qed

lemma find_distinct_key:
  "distinct (map f xs) \<Longrightarrow> x \<in> set xs \<Longrightarrow> find (\<lambda>y. f y = f x) xs = Some x"
  by (induction xs) (auto simp: image_iff)

lemma take_filter_cong:
  "(\<And>x. x \<in> set xs \<Longrightarrow> P x = Q x) \<Longrightarrow> take n (filter P xs) = take n (filter Q xs)"
  by (simp cong: filter_cong)

section \<open>Lists: removing one element by position\<close>

text \<open>
  Outstanding asynchronous requests are kept in a list; the environment answers any one of
  them, by position.
\<close>

definition remove_nth :: "nat \<Rightarrow> 'a list \<Rightarrow> 'a list" where
  "remove_nth i xs = take i xs @ drop (Suc i) xs"

lemma set_remove_nth_subset: "set (remove_nth i xs) \<subseteq> set xs"
  unfolding remove_nth_def
  using set_take_subset set_drop_subset by fastforce

lemma remove_nth_split:
  "i < length xs \<Longrightarrow> take i xs @ [xs ! i] @ drop (Suc i) xs = xs"
  by (simp add: Cons_nth_drop_Suc)

lemma remove_nth_filter_length:
  assumes i: "i < length xs"
  shows "length (filter P (remove_nth i xs)) + (if P (xs ! i) then 1 else 0) = length (filter P xs)"
proof -
  have "length (filter P xs) = length (filter P (take i xs @ [xs ! i] @ drop (Suc i) xs))"
    by (simp only: remove_nth_split [OF i])
  then show ?thesis by (simp add: remove_nth_def)
qed

lemma remove_nth_sum:
  assumes i: "i < length xs"
  shows "sum_list (map (f :: 'a \<Rightarrow> 'b::comm_monoid_add) (remove_nth i xs)) + f (xs ! i) = sum_list (map f xs)"
proof -
  have "sum_list (map f xs) = sum_list (map f (take i xs @ [xs ! i] @ drop (Suc i) xs))"
    by (simp only: remove_nth_split [OF i])
  then show ?thesis by (simp add: remove_nth_def ac_simps)
qed

lemma remove_nth_mem:
  assumes i: "i < length xs" and x: "x \<in> set xs" and ne: "x \<noteq> xs ! i"
  shows "x \<in> set (remove_nth i xs)"
proof -
  from x have "x \<in> set (take i xs @ [xs ! i] @ drop (Suc i) xs)"
    by (simp only: remove_nth_split [OF i])
  with ne show ?thesis by (auto simp: remove_nth_def)
qed

end
