(* ===== verification/JsValue.thy ===== *)
theory JsValue
  imports Prelude
begin

text \<open>
  The JavaScript primitives the screen (src/src/app/ReportMenu/page.tsx) applies to the
  untyped (\<open>any\<close>) documents of the store: truthiness and \<open>||\<close>, nullish coalescing
  \<open>??\<close>, the \<open>String(..)\<close> conversion, \<open>toLowerCase\<close> and \<open>startsWith\<close>, and the
  text React renders for a child expression. Numbers are integer-valued here (connection
  numbers); strings are lists of Latin-1 code units, on which \<open>toLowerCase\<close> is the
  exact Unicode mapping. The theory ends with the decimal printing of integers and its
  inverse.
\<close>

section \<open>Values\<close>

datatype jsval =
    JUndefined
  | JNull
  | JBool bool
  | JNum int
  | JStr string

text \<open>ECMAScript ToBoolean: \<open>undefined\<close>, \<open>null\<close>, \<open>false\<close>, \<open>0\<close> and \<open>""\<close> are falsy.\<close>

fun js_truthy :: "jsval \<Rightarrow> bool" where
  "js_truthy JUndefined = False"
| "js_truthy JNull = False"
| "js_truthy (JBool b) = b"
| "js_truthy (JNum n) = (n \<noteq> 0)"
| "js_truthy (JStr s) = (s \<noteq> [])"

text \<open>\<open>a || b\<close>: the left operand when it is truthy, else the right one.\<close>

definition js_or :: "jsval \<Rightarrow> jsval \<Rightarrow> jsval" where
  "js_or a b = (if js_truthy a then a else b)"

fun js_nullish :: "jsval \<Rightarrow> bool" where
  "js_nullish JUndefined = True"
| "js_nullish JNull = True"
| "js_nullish _ = False"

text \<open>\<open>a ?? b\<close>: the left operand unless it is \<open>null\<close> or \<open>undefined\<close>.\<close>

definition js_coalesce :: "jsval \<Rightarrow> jsval \<Rightarrow> jsval" where
  "js_coalesce a b = (if js_nullish a then b else a)"

text \<open>\<open>xs || []\<close> on the array a store call resolves to: \<open>None\<close> is a
  \<open>null\<close>/\<open>undefined\<close> result; every array is truthy, the empty one included.\<close>

definition list_or_empty :: "'a list option \<Rightarrow> 'a list" where
  "list_or_empty r = (case r of None \<Rightarrow> [] | Some xs \<Rightarrow> xs)"

text \<open>Runtime type tests: a string, a boolean.\<close>

fun is_jstr :: "jsval \<Rightarrow> bool" where
  "is_jstr (JStr _) = True"
| "is_jstr _ = False"

fun is_jbool :: "jsval \<Rightarrow> bool" where
  "is_jbool (JBool _) = True"
| "is_jbool _ = False"

section \<open>Decimal printing of integers\<close>

definition digit_char :: "nat \<Rightarrow> char" where
  "digit_char d = char_of (48 + d)"

fun nat_digits :: "nat \<Rightarrow> string" where
  "nat_digits n = (if n < 10 then [digit_char n] else nat_digits (n div 10) @ [digit_char (n mod 10)])"

declare nat_digits.simps [simp del]

text \<open>Number::toString for an integer-valued number (in fixed notation).\<close>

definition int_to_string :: "int \<Rightarrow> string" where
  "int_to_string i = (if i < 0 then CHR ''-'' # nat_digits (nat (- i)) else nat_digits (nat i))"

section \<open>String conversion and rendering\<close>

text \<open>\<open>String(v)\<close>, and the template literal \<open>`${v}`\<close>, which is the same conversion.\<close>

fun js_string :: "jsval \<Rightarrow> string" where
  "js_string JUndefined = ''undefined''"
| "js_string JNull = ''null''"
| "js_string (JBool b) = (if b then ''true'' else ''false'')"
| "js_string (JNum n) = int_to_string n"
| "js_string (JStr s) = s"

text \<open>The text React renders for a child expression \<open>{v}\<close>: strings and numbers are
  printed, booleans, \<open>null\<close> and \<open>undefined\<close> render nothing.\<close>

fun react_text :: "jsval \<Rightarrow> string" where
  "react_text (JStr s) = s"
| "react_text (JNum n) = int_to_string n"
| "react_text _ = []"

section \<open>Case folding and prefixes\<close>

text \<open>\<open>toLowerCase\<close> on one Latin-1 code unit: \<open>A\<close>..\<open>Z\<close> and the accented capitals
  U+00C0..U+00DE (but the multiplication sign U+00D7) move up by 32; nothing else in this
  range has a lower-case mapping.\<close>

definition js_lower_char :: "char \<Rightarrow> char" where
  "js_lower_char c =
     (let n = (of_char c :: nat)
      in if (65 \<le> n \<and> n \<le> 90) \<or> (192 \<le> n \<and> n \<le> 222 \<and> n \<noteq> 215) then char_of (n + 32) else c)"

definition js_lower :: "string \<Rightarrow> string" where
  "js_lower s = map js_lower_char s"

text \<open>\<open>s.startsWith(p)\<close>: the first \<open>length p\<close> code units of \<open>s\<close> are \<open>p\<close>.\<close>

definition starts_with :: "string \<Rightarrow> string \<Rightarrow> bool" where
  "starts_with s p = (take (length p) s = p)"

declare js_or_def [js_simps] js_coalesce_def [js_simps] list_or_empty_def [js_simps]
  js_lower_def [js_simps] starts_with_def [js_simps] int_to_string_def [js_simps]

text \<open>Evaluation of the decimal printer on literals only, so that the simplifier never
  unfolds it on a symbolic argument.\<close>

lemma nat_digits_eval [eval_simps]:
  "nat_digits 0 = [digit_char 0]"
  "nat_digits (Suc 0) = [digit_char 1]"
  "nat_digits (numeral k) =
     (if numeral k < (10::nat) then [digit_char (numeral k)]
      else nat_digits (numeral k div 10) @ [digit_char (numeral k mod 10)])"
    apply (subst nat_digits.simps, simp)
   apply (subst nat_digits.simps, simp)
  apply (subst nat_digits.simps, rule refl)
  done

declare js_simps [eval_simps] char_of_def [eval_simps] bit_Suc_0_iff [eval_simps]
  digit_char_def [eval_simps] js_lower_char_def [eval_simps]

section \<open>Facts\<close>

lemma starts_with_prefix: "starts_with s p \<longleftrightarrow> prefix p s"
  by (simp add: starts_with_def prefix_def) (metis append_take_drop_id append_eq_conv_conj)

lemma js_lower_char_idem [simp]: "js_lower_char (js_lower_char c) = js_lower_char c"
  using nat_of_char_less_256 [of c] by (auto simp: js_lower_char_def Let_def)

lemma js_lower_idem [simp]: "js_lower (js_lower s) = js_lower s"
  by (simp add: js_lower_def)

lemma length_js_lower [simp]: "length (js_lower s) = length s"
  by (simp add: js_lower_def)

lemma js_lower_append [simp]: "js_lower (s @ t) = js_lower s @ js_lower t"
  by (simp add: js_lower_def)

lemma js_lower_Nil_iff [simp]: "js_lower s = [] \<longleftrightarrow> s = []"
  by (simp add: js_lower_def)

lemma js_or_not_nullish [simp]: "\<not> js_nullish b \<Longrightarrow> \<not> js_nullish (js_or a b)"
  by (cases a) (simp_all add: js_or_def)

lemma js_or_is_jstr: "is_jstr a \<or> \<not> js_truthy a \<Longrightarrow> is_jstr b \<Longrightarrow> is_jstr (js_or a b)"
  by (auto simp: js_or_def)

text \<open>React prints a child value as \<open>String\<close> does, except \<open>null\<close>,
  \<open>undefined\<close> and the booleans, which it does not print.\<close>

lemma react_text_js_string: "\<not> js_nullish v \<Longrightarrow> \<not> is_jbool v \<Longrightarrow> react_text v = js_string v"
  by (cases v) simp_all

section \<open>Decimal digits read back\<close>

text \<open>The reference reading of a string of decimal digits.\<close>

definition is_digit :: "char \<Rightarrow> bool" where
  "is_digit c = (48 \<le> (of_char c :: nat) \<and> (of_char c :: nat) \<le> 57)"

definition digits_value :: "string \<Rightarrow> nat" where
  "digits_value s = foldl (\<lambda>acc c. 10 * acc + (of_char c - 48)) 0 s"

definition parse_int :: "string \<Rightarrow> int option" where
  "parse_int s =
     (if s \<noteq> [] \<and> hd s = CHR ''-'' then
        (if tl s \<noteq> [] \<and> list_all is_digit (tl s) then Some (- int (digits_value (tl s))) else None)
      else if s \<noteq> [] \<and> list_all is_digit s then Some (int (digits_value s)) else None)"

lemma digits_value_snoc [simp]:
  "digits_value (s @ [c]) = 10 * digits_value s + (of_char c - 48)"
  by (simp add: digits_value_def)

lemma digits_value_append: "digits_value (s @ t) = digits_value s * 10 ^ length t + digits_value t"
proof (induction t rule: rev_induct)
  case Nil
  then show ?case by (simp add: digits_value_def)
next
  case (snoc c t)
  then show ?case by (simp add: algebra_simps flip: append_assoc)
qed

lemma digits_value_zeros [simp]: "digits_value (replicate k (CHR ''0'')) = 0"
  by (induction k) (simp_all add: digits_value_def)

lemma of_char_digit_char [simp]: "d < 10 \<Longrightarrow> of_char (digit_char d) = 48 + d"
  by (simp add: digit_char_def)

lemma digits_value_nat_digits [simp]: "digits_value (nat_digits n) = n"
proof (induction n rule: nat_digits.induct)
  case (1 n)
  show ?case
  proof (cases "n < 10")
    case True
    then show ?thesis by (simp add: nat_digits.simps digits_value_def)
  next
    case False
    with "1.IH" show ?thesis by (simp add: nat_digits.simps [of n])
  qed
qed

lemma nat_digits_all_digits [simp]: "list_all is_digit (nat_digits n)"
proof (induction n rule: nat_digits.induct)
  case (1 n)
  have d: "\<And>d. d < 10 \<Longrightarrow> is_digit (digit_char d)"
    by (simp add: is_digit_def)
  show ?case
    using "1.IH" d by (cases "n < 10") (simp_all add: nat_digits.simps [of n])
qed

lemma nat_digits_not_Nil [simp]: "nat_digits n \<noteq> []"
  by (simp add: nat_digits.simps [of n])

lemma hd_nat_digits_not_minus: "hd (nat_digits n) \<noteq> CHR ''-''"
proof -
  have "list_all is_digit (nat_digits n)" by simp
  then have "is_digit (hd (nat_digits n))"
    by (cases "nat_digits n") auto
  then show ?thesis by (auto simp: is_digit_def)
qed

end
