(* ===== verification/Entities.thy ===== *)
theory Entities
  imports JsValue
begin

text \<open>
  The documents the screen reads from the local store, as the code accesses them:
  areas (\<open>_id\<close>, \<open>name\<close>), persons (\<open>_id\<close>, the area they belong to,
  \<open>connectionNumber\<close>, \<open>number\<close>, \<open>name\<close>) and payment records (\<open>_id\<close>, \<open>type\<close>,
  \<open>personId\<close>, \<open>month\<close>, \<open>amount\<close>, \<open>createdAt\<close>). Fields the code only passes on
  or prints keep the untyped JavaScript value; identifiers are strings. The amount is the
  exact value of the stored number. The theory also holds the label helpers the page
  computes from a person or an area in several places.
\<close>

record area =
  a_id :: doc_id
  a_name :: jsval

record person =
  p_id :: doc_id
  areaId :: doc_id
  connectionNumber :: jsval
  number :: jsval
  p_name :: jsval

record entry =
  r_id :: doc_id
  r_type :: jsval
  personId :: jsval
  month :: jsval
  amount :: rat
  createdAt :: jsval

section \<open>Labels\<close>

text \<open>
  \<open>p.connectionNumber ?? p.number ?? p.name ?? ""\<close>, the fallback chain written out at
  three places of page.tsx (the person filter, the selection handler, the suggestion list);
  \<open>??\<close> groups to the left.
\<close>

definition conn_value :: "person \<Rightarrow> jsval" where
  "conn_value p =
     js_coalesce (js_coalesce (js_coalesce (connectionNumber p) (number p)) (p_name p)) (JStr '''')"

text \<open>\<open>String(p.connectionNumber ?? p.number ?? p.name ?? "")\<close>.\<close>

definition conn_label :: "person \<Rightarrow> string" where
  "conn_label p = js_string (conn_value p)"

text \<open>\<open>String(p.name || "")\<close> and \<open>String(ar.name || "")\<close>.\<close>

definition name_label :: "person \<Rightarrow> string" where
  "name_label p = js_string (js_or (p_name p) (JStr ''''))"

definition area_label :: "area \<Rightarrow> string" where
  "area_label a = js_string (js_or (a_name a) (JStr ''''))"

declare conn_value_def [js_simps] conn_label_def [js_simps] name_label_def [js_simps]
  area_label_def [js_simps]
declare js_simps [eval_simps]

text \<open>The fallback chain picks the first field that is neither \<open>null\<close> nor \<open>undefined\<close>.\<close>

lemma conn_value_cases:
  "conn_value p =
     (if \<not> js_nullish (connectionNumber p) then connectionNumber p
      else if \<not> js_nullish (number p) then number p
      else if \<not> js_nullish (p_name p) then p_name p
      else JStr '''')"
  by (simp add: conn_value_def js_coalesce_def)

end
