(* ===== verification/Search.thy ===== *)
theory Search
  imports Entities
begin

text \<open>
  The two autocomplete filters of page.tsx, as pure functions of the list they search and
  the typed text: the area filter of the area input's \<open>onChange\<close> (lines 103-105) and
  the in-area person filter of the connection input's \<open>onChange\<close> (lines 144-150). Both
  lower-case the query and each candidate label, keep the candidates whose label starts
  with the query, and cut the result at 20. The lemmas relate each filter to its
  specification (a case-insensitive prefix test, as the library's \<open>prefix\<close>) and
  derive what a reader of the suggestion list may rely on.
\<close>

definition suggestion_cap :: nat where
  "suggestion_cap = 20"

section \<open>Area filter\<close>

definition area_matches :: "string \<Rightarrow> area \<Rightarrow> bool" where
  "area_matches qLower ar = starts_with (js_lower (area_label ar)) qLower"

definition area_filter :: "area list \<Rightarrow> string \<Rightarrow> area list" where
  "area_filter areas q = take suggestion_cap (filter (area_matches (js_lower q)) areas)"

section \<open>Person filter\<close>

definition person_matches :: "string \<Rightarrow> person \<Rightarrow> bool" where
  "person_matches qLower p =
     (starts_with (js_lower (conn_label p)) qLower \<or> starts_with (js_lower (name_label p)) qLower)"

definition person_filter :: "person list \<Rightarrow> string \<Rightarrow> person list" where
  "person_filter persons q = take suggestion_cap (filter (person_matches (js_lower q)) persons)"

section \<open>Specification of the filters\<close>

text \<open>A label matches a query when the lower-cased query is a prefix of the lower-cased
  label.\<close>

definition ci_prefix :: "string \<Rightarrow> string \<Rightarrow> bool" where
  "ci_prefix q s \<longleftrightarrow> prefix (js_lower q) (js_lower s)"

lemma area_matches_ci: "area_matches (js_lower q) = (\<lambda>a. ci_prefix q (area_label a))"
  by (simp add: area_matches_def ci_prefix_def starts_with_prefix fun_eq_iff)

lemma person_matches_ci:
  "person_matches (js_lower q) = (\<lambda>p. ci_prefix q (conn_label p) \<or> ci_prefix q (name_label p))"
  by (simp add: person_matches_def ci_prefix_def starts_with_prefix fun_eq_iff)

lemmas filter_spec_simps = area_matches_ci person_matches_ci suggestion_cap_def

declare area_matches_def [eval_simps] area_filter_def [eval_simps] person_matches_def [eval_simps]
  person_filter_def [eval_simps] suggestion_cap_def [eval_simps] ci_prefix_def [eval_simps]

lemma ci_prefix_refl [simp]: "ci_prefix s s"
  by (simp add: ci_prefix_def)

lemma ci_prefix_trans: "ci_prefix q s \<Longrightarrow> ci_prefix s t \<Longrightarrow> ci_prefix q t"
  unfolding ci_prefix_def by (rule prefix_order.trans)

lemma area_filter_bound: "set (area_filter areas q) \<subseteq> set areas \<and> length (area_filter areas q) \<le> 20"
  by (auto simp: area_filter_def suggestion_cap_def)

lemma person_filter_subset: "set (person_filter persons q) \<subseteq> set persons"
  by (auto simp: person_filter_def)

section \<open>Area filter: properties\<close>

text \<open>The area filter computes its specification: the first 20 areas, in list order,
  whose label (\<open>String(name || "")\<close>) starts with the query up to letter case.\<close>

theorem area_filter_spec:
  "area_filter areas q = take 20 (filter (\<lambda>a. ci_prefix q (area_label a)) areas)"
  by (simp add: area_filter_def filter_spec_simps)

text \<open>Every area suggestion is an area of the loaded list whose label starts with the
  query up to case; the suggestions are at most 20 and keep the order of the list.\<close>

theorem area_filter_sound:
  "a \<in> set (area_filter areas q) \<Longrightarrow>
   a \<in> set areas \<and> ci_prefix q (area_label a) \<and>
   length (area_filter areas q) \<le> 20 \<and> subseq (area_filter areas q) areas"
  by (simp add: area_filter_def filter_spec_simps) blast

text \<open>C25: No matching area is left out unless 20 matching areas come before it.\<close>

theorem area_filter_complete:
  "a \<in> set areas \<Longrightarrow> ci_prefix q (area_label a) \<Longrightarrow>
   length (filter (\<lambda>b. ci_prefix q (area_label b)) (takeWhile (\<lambda>b. b \<noteq> a) areas)) < 20 \<Longrightarrow>
   a \<in> set (area_filter areas q)"
  unfolding area_filter_def filter_spec_simps by (rule take_filter_complete)

section \<open>Person filter: properties\<close>

text \<open>The in-area person filter computes its specification: the first 20 persons, in
  list order, whose connection label or name starts with the query up to case.\<close>

theorem person_filter_spec:
  "person_filter persons q =
   take 20 (filter (\<lambda>p. ci_prefix q (conn_label p) \<or> ci_prefix q (name_label p)) persons)"
  by (simp add: person_filter_def filter_spec_simps)

text \<open>Every person suggestion is a person of the area's list that matches the query by
  connection label or by name; there are at most 20, in the order of the list.\<close>

theorem person_filter_sound:
  "p \<in> set (person_filter persons q) \<Longrightarrow>
   p \<in> set persons \<and> (ci_prefix q (conn_label p) \<or> ci_prefix q (name_label p)) \<and>
   length (person_filter persons q) \<le> 20 \<and> subseq (person_filter persons q) persons"
  by (simp add: person_filter_def filter_spec_simps) blast

text \<open>C26: No matching person is left out unless 20 matching persons come before it.\<close>

theorem person_filter_complete:
  "p \<in> set persons \<Longrightarrow> ci_prefix q (conn_label p) \<or> ci_prefix q (name_label p) \<Longrightarrow>
   length (filter (\<lambda>x. ci_prefix q (conn_label x) \<or> ci_prefix q (name_label x))
             (takeWhile (\<lambda>x. x \<noteq> p) persons)) < 20 \<Longrightarrow>
   p \<in> set (person_filter persons q)"
  unfolding person_filter_def filter_spec_simps by (rule take_filter_complete)

section \<open>The best query\<close>

lemma area_filter_own_label:
  assumes "a \<in> set (area_filter areas q)"
  shows "a \<in> set (area_filter areas (area_label a))"
proof -
  from assms have qa: "ci_prefix q (area_label a)"
    by (auto simp: area_filter_def filter_spec_simps)
  have "a \<in> set (take 20 (filter (\<lambda>b. ci_prefix (area_label a) (area_label b)) areas))"
    by (rule take_filter_antimono [OF _ _ assms [unfolded area_filter_def filter_spec_simps]])
       (auto intro: ci_prefix_trans [OF qa])
  then show ?thesis by (simp add: area_filter_def filter_spec_simps)
qed

text \<open>C29: Typing an area's own label is the best query for it: if some query puts the
  area among the suggestions, so does its label. Together with the cap, an area is ever
  offered exactly when fewer than 20 areas before it have a label extending its own.\<close>

theorem area_filter_best_query:
  assumes "a \<in> set (area_filter areas q)"
  shows "a \<in> set (area_filter areas (area_label a))"
  using assms by (rule area_filter_own_label)

text \<open>C30: For a person, the best query is its connection label or its name: if some query
  puts the person among the in-area suggestions, one of these two does.\<close>

theorem person_filter_best_query:
  assumes p: "p \<in> set (person_filter persons q)"
  shows "p \<in> set (person_filter persons (conn_label p)) \<or> p \<in> set (person_filter persons (name_label p))"
proof -
  let ?M = "\<lambda>q x. ci_prefix q (conn_label x) \<or> ci_prefix q (name_label x)"
  from p have mem: "p \<in> set (take 20 (filter (?M q) persons))"
    by (simp add: person_filter_def filter_spec_simps)
  then have "ci_prefix q (conn_label p) \<or> ci_prefix q (name_label p)" by auto
  then show ?thesis
  proof
    assume qp: "ci_prefix q (conn_label p)"
    have "p \<in> set (take 20 (filter (?M (conn_label p)) persons))"
      by (rule take_filter_antimono [OF _ _ mem]) (auto intro: ci_prefix_trans [OF qp])
    then show ?thesis by (simp add: person_filter_def filter_spec_simps)
  next
    assume qp: "ci_prefix q (name_label p)"
    have "p \<in> set (take 20 (filter (?M (name_label p)) persons))"
      by (rule take_filter_antimono [OF _ _ mem]) (auto intro: ci_prefix_trans [OF qp])
    then show ?thesis by (simp add: person_filter_def filter_spec_simps)
  qed
qed

section \<open>Witnesses\<close>

theorem area_filter_sound_witness:
  "\<lparr>a_id = ''a2'', a_name = JStr ''Northwest''\<rparr> \<in> set (area_filter
      [\<lparr>a_id = ''a1'', a_name = JStr ''South''\<rparr>, \<lparr>a_id = ''a2'', a_name = JStr ''Northwest''\<rparr>] ''nO'')
   \<and> ci_prefix ''nO'' ''Northwest''"
proof -
  let ?s = "\<lparr>a_id = ''a1'', a_name = JStr ''South''\<rparr>"
  let ?n = "\<lparr>a_id = ''a2'', a_name = JStr ''Northwest''\<rparr>"
  have m: "?n \<in> set (area_filter [?s, ?n] ''nO'')" by (simp add: eval_simps)
  from area_filter_sound [OF m] m show ?thesis by (simp add: area_label_def js_or_def)
qed

theorem area_filter_complete_witness:
  "\<lparr>a_id = ''a2'', a_name = JStr ''Northwest''\<rparr> \<in> set (area_filter
      [\<lparr>a_id = ''a1'', a_name = JStr ''South''\<rparr>, \<lparr>a_id = ''a2'', a_name = JStr ''Northwest''\<rparr>] ''NOR'')"
proof (rule area_filter_complete)
  show "\<lparr>a_id = ''a2'', a_name = JStr ''Northwest''\<rparr> \<in> set
      [\<lparr>a_id = ''a1'', a_name = JStr ''South''\<rparr>, \<lparr>a_id = ''a2'', a_name = JStr ''Northwest''\<rparr>]"
    by simp
  show "ci_prefix ''NOR'' (area_label \<lparr>a_id = ''a2'', a_name = JStr ''Northwest''\<rparr>)"
    by (simp add: eval_simps)
  show "length (filter (\<lambda>b. ci_prefix ''NOR'' (area_label b))
      (takeWhile (\<lambda>b. b \<noteq> \<lparr>a_id = ''a2'', a_name = JStr ''Northwest''\<rparr>)
        [\<lparr>a_id = ''a1'', a_name = JStr ''South''\<rparr>, \<lparr>a_id = ''a2'', a_name = JStr ''Northwest''\<rparr>])) < 20"
    by (simp add: eval_simps)
qed

theorem person_filter_sound_witness:
  "\<lparr>p_id = ''p1'', areaId = ''a1'', connectionNumber = JNum 12345, number = JUndefined,
     p_name = JStr ''Jane Doe''\<rparr> \<in> set (person_filter
     [\<lparr>p_id = ''p1'', areaId = ''a1'', connectionNumber = JNum 12345, number = JUndefined,
       p_name = JStr ''Jane Doe''\<rparr>] ''123'')
   \<and> (ci_prefix ''123'' (conn_label \<lparr>p_id = ''p1'', areaId = ''a1'', connectionNumber = JNum 12345,
          number = JUndefined, p_name = JStr ''Jane Doe''\<rparr>)
      \<or> ci_prefix ''123'' (name_label \<lparr>p_id = ''p1'', areaId = ''a1'', connectionNumber = JNum 12345,
          number = JUndefined, p_name = JStr ''Jane Doe''\<rparr>))"
proof -
  let ?p = "\<lparr>p_id = ''p1'', areaId = ''a1'', connectionNumber = JNum 12345, number = JUndefined,
     p_name = JStr ''Jane Doe''\<rparr>"
  have m: "?p \<in> set (person_filter [?p] ''123'')" by (simp add: eval_simps)
  from person_filter_sound [OF m] m show ?thesis by blast
qed

theorem person_filter_complete_witness:
  "\<lparr>p_id = ''p2'', areaId = ''a1'', connectionNumber = JUndefined, number = JNull,
     p_name = JStr ''Bob''\<rparr> \<in> set (person_filter
     [\<lparr>p_id = ''p2'', areaId = ''a1'', connectionNumber = JUndefined, number = JNull,
       p_name = JStr ''Bob''\<rparr>] ''bo'')"
proof (rule person_filter_complete)
  let ?p = "\<lparr>p_id = ''p2'', areaId = ''a1'', connectionNumber = JUndefined, number = JNull,
     p_name = JStr ''Bob''\<rparr>"
  show "?p \<in> set [?p]" by simp
  show "ci_prefix ''bo'' (conn_label ?p) \<or> ci_prefix ''bo'' (name_label ?p)" by (simp add: eval_simps)
  show "length (filter (\<lambda>x. ci_prefix ''bo'' (conn_label x) \<or> ci_prefix ''bo'' (name_label x))
      (takeWhile (\<lambda>x. x \<noteq> ?p) [?p])) < 20" by simp
qed

theorem area_filter_best_query_witness:
  "\<lparr>a_id = ''a2'', a_name = JStr ''Northwest''\<rparr> \<in> set (area_filter
      [\<lparr>a_id = ''a1'', a_name = JStr ''South''\<rparr>, \<lparr>a_id = ''a2'', a_name = JStr ''Northwest''\<rparr>] ''nO'') \<and>
   \<lparr>a_id = ''a2'', a_name = JStr ''Northwest''\<rparr> \<in> set (area_filter
      [\<lparr>a_id = ''a1'', a_name = JStr ''South''\<rparr>, \<lparr>a_id = ''a2'', a_name = JStr ''Northwest''\<rparr>] ''Northwest'')"
proof -
  let ?s = "\<lparr>a_id = ''a1'', a_name = JStr ''South''\<rparr>"
  let ?n = "\<lparr>a_id = ''a2'', a_name = JStr ''Northwest''\<rparr>"
  have m: "?n \<in> set (area_filter [?s, ?n] ''nO'')" by (simp add: eval_simps)
  from area_filter_best_query [OF m] m show ?thesis by (simp add: area_label_def js_or_def)
qed

theorem person_filter_best_query_witness:
  "\<lparr>p_id = ''p1'', areaId = ''a1'', connectionNumber = JNum 12345, number = JUndefined,
     p_name = JStr ''Jane''\<rparr> \<in> set (person_filter
     [\<lparr>p_id = ''p1'', areaId = ''a1'', connectionNumber = JNum 12345, number = JUndefined,
       p_name = JStr ''Jane''\<rparr>] ''ja'') \<and>
   (\<lparr>p_id = ''p1'', areaId = ''a1'', connectionNumber = JNum 12345, number = JUndefined,
      p_name = JStr ''Jane''\<rparr> \<in> set (person_filter
      [\<lparr>p_id = ''p1'', areaId = ''a1'', connectionNumber = JNum 12345, number = JUndefined,
        p_name = JStr ''Jane''\<rparr>] ''12345'') \<or>
    \<lparr>p_id = ''p1'', areaId = ''a1'', connectionNumber = JNum 12345, number = JUndefined,
      p_name = JStr ''Jane''\<rparr> \<in> set (person_filter
      [\<lparr>p_id = ''p1'', areaId = ''a1'', connectionNumber = JNum 12345, number = JUndefined,
        p_name = JStr ''Jane''\<rparr>] ''Jane''))"
proof -
  let ?j = "\<lparr>p_id = ''p1'', areaId = ''a1'', connectionNumber = JNum 12345, number = JUndefined,
     p_name = JStr ''Jane''\<rparr>"
  have m: "?j \<in> set (person_filter [?j] ''ja'')" by (simp add: eval_simps)
  have l: "conn_label ?j = ''12345''" "name_label ?j = ''Jane''" by (simp_all add: eval_simps)
  from person_filter_best_query [OF m] m show ?thesis by (simp only: l)
qed

end
