(* ===== verification/Store.thy ===== *)
theory Store
  imports Entities
begin

text \<open>
  The data-access collaborator the page imports from \<open>../services/db\<close> (\<open>initDB\<close>,
  the handle's \<open>getAreas\<close>, \<open>getPersonsByArea\<close>, the optional \<open>searchPersons\<close>, and
  \<open>localDB.createIndex\<close> / \<open>localDB.find\<close>). That module is not part of the sources,
  so it is modelled from the contract the specification gives it (section 6 of spec.md):
  a store of areas, persons and documents with a list of declared indexes; index creation
  is idempotent; \<open>find\<close> with the selector \<open>{type: "debit", personId}\<close> returns the
  documents equal to it on both fields. The free-text search is a parameter of the store,
  since the contract does not fix its result.
\<close>

text \<open>The connection handle, as far as the page inspects it: whether it offers
  \<open>searchPersons\<close>.\<close>

record dbh =
  has_searchPersons :: bool

record store =
  st_available :: bool
  st_areas :: "area list"
  st_persons :: "person list"
  st_docs :: "entry list"
  st_indexes :: "string list list"
  st_search :: "(string \<Rightarrow> person list) option"

definition init_db :: "store \<Rightarrow> dbh option" where
  "init_db st = (if st_available st then Some \<lparr>has_searchPersons = (st_search st \<noteq> None)\<rparr> else None)"

definition get_areas :: "store \<Rightarrow> area list" where
  "get_areas st = st_areas st"

definition get_persons_by_area :: "store \<Rightarrow> doc_id \<Rightarrow> person list" where
  "get_persons_by_area st aid = filter (\<lambda>p. areaId p = aid) (st_persons st)"

definition search_persons :: "store \<Rightarrow> string \<Rightarrow> person list" where
  "search_persons st q = (case st_search st of Some f \<Rightarrow> f q | None \<Rightarrow> [])"

definition create_index :: "store \<Rightarrow> string list \<Rightarrow> store" where
  "create_index st ix =
     (if ix \<in> set (st_indexes st) then st else st\<lparr>st_indexes := st_indexes st @ [ix]\<rparr>)"

text \<open>The selector \<open>{type: "debit", personId}\<close>.\<close>

definition debit_selector :: "doc_id \<Rightarrow> entry \<Rightarrow> bool" where
  "debit_selector pid d \<longleftrightarrow> r_type d = JStr ''debit'' \<and> personId d = JStr pid"

definition find_docs :: "store \<Rightarrow> doc_id \<Rightarrow> entry list" where
  "find_docs st pid = filter (debit_selector pid) (st_docs st)"

text \<open>The index the page declares before each query.\<close>

definition record_index :: "string list" where
  "record_index = [''type'', ''personId'']"

section \<open>Facts\<close>

lemma create_index_idem: "create_index (create_index st f) f = create_index st f"
  by (simp add: create_index_def)

lemma find_docs_create_index [simp]: "find_docs (create_index st f) pid = find_docs st pid"
  by (simp add: create_index_def find_docs_def)

lemma st_docs_create_index [simp]: "st_docs (create_index st f) = st_docs st"
  and st_persons_create_index [simp]: "st_persons (create_index st f) = st_persons st"
  and st_areas_create_index [simp]: "st_areas (create_index st f) = st_areas st"
  and st_search_create_index [simp]: "st_search (create_index st f) = st_search st"
  and st_available_create_index [simp]: "st_available (create_index st f) = st_available st"
  by (simp_all add: create_index_def)

lemma find_docs_debit: "d \<in> set (find_docs st pid) \<Longrightarrow> d \<in> set (st_docs st) \<and> r_type d = JStr ''debit'' \<and> personId d = JStr pid"
  by (simp add: find_docs_def debit_selector_def)

end
