(* ===== verification/Screen.thy ===== *)
theory Screen
  imports Search Store
begin

text \<open>
  The screen controller \<open>ReportMenuPage\<close> of src/src/app/ReportMenu/page.tsx as a state
  machine. Its \<open>useState\<close> fields form the record \<open>screen\<close>. Every handler runs
  synchronously up to its first \<open>await\<close>; what it does there is one definition below,
  which returns the new state and the store requests it leaves outstanding. What each
  handler does when an awaited call settles is a continuation, applied to the state current
  at that time, as React's setters are. The page does not order or cancel its requests, so
  the outstanding ones are a list, and the environment settles any of them at any time.
  The events of the machine are the user's inputs, enabled only where the page renders
  the control they come from, and the settling of one outstanding request.
\<close>

section \<open>State\<close>

record screen =
  db :: "dbh option"
  areas :: "area list"
  areaQuery :: jsval
  areaSuggestions :: "area list"
  selectedArea :: doc_id
  personsInArea :: "person list"
  connectionQuery :: string
  connectionSuggestions :: "person list"
  selectedPersonId :: doc_id
  selectedPersonName :: jsval
  records :: "entry list"
  loading :: bool

definition init_screen :: screen where
  "init_screen =
     \<lparr>db = None, areas = [], areaQuery = JStr '''', areaSuggestions = [], selectedArea = '''',
      personsInArea = [], connectionQuery = '''', connectionSuggestions = [],
      selectedPersonId = '''', selectedPersonName = JStr '''', records = [], loading = True\<rparr>"

section \<open>Requests and their outcomes\<close>

text \<open>An outstanding store call, with the data its continuation captured.\<close>

datatype request =
    RqConnect
  | RqAreas
  | RqPersons doc_id
  | RqSearch string
  | RqIndex doc_id
  | RqFind doc_id

text \<open>How a promise settles.\<close>

datatype 'a outcome = Rejected | Fulfilled 'a

datatype response =
    RConnect "dbh option"
  | RAreas "area list option"
  | RPersons "person list option"
  | RIndexed
  | RDocs "entry list option"

section \<open>Handlers\<close>

text \<open>\<open>setup\<close> of the mount effect, after \<open>await initDB()\<close>: no handle ends the effect;
  otherwise the handle is stored and the areas are requested.\<close>

definition setup_after_connect :: "dbh option \<Rightarrow> screen \<Rightarrow> screen \<times> request list" where
  "setup_after_connect pouch s =
     (case pouch of None \<Rightarrow> (s, []) | Some h \<Rightarrow> (s\<lparr>db := Some h\<rparr>, [RqAreas]))"

text \<open>\<open>setup\<close>, after \<open>await pouch.getAreas()\<close>: the areas on success, a warning on
  failure, and the loading flag cleared in both cases.\<close>

definition setup_after_areas :: "area list option outcome \<Rightarrow> screen \<Rightarrow> screen" where
  "setup_after_areas r s =
     (case r of
        Fulfilled a \<Rightarrow> s\<lparr>areas := list_or_empty a, loading := False\<rparr>
      | Rejected \<Rightarrow> s\<lparr>loading := False\<rparr>)"

text \<open>\<open>onAreaSelect\<close> up to its \<open>await\<close>: the selection and everything downstream of it
  reset, then the persons of the area requested when there is a handle and an id.\<close>

definition on_area_select :: "doc_id \<Rightarrow> screen \<Rightarrow> screen \<times> request list" where
  "on_area_select areaId' s =
     (let s' = s\<lparr>selectedArea := areaId', selectedPersonId := '''', selectedPersonName := JStr '''',
                 records := [], connectionQuery := '''', connectionSuggestions := []\<rparr>
      in if db s = None \<or> areaId' = [] then (s', []) else (s', [RqPersons areaId']))"

text \<open>\<open>onAreaSelect\<close>, after \<open>await db.getPersonsByArea(areaId)\<close>: the persons on
  success; on failure the previous list stays.\<close>

definition area_select_after_fetch :: "person list option outcome \<Rightarrow> screen \<Rightarrow> screen" where
  "area_select_after_fetch r s =
     (case r of Fulfilled p \<Rightarrow> s\<lparr>personsInArea := list_or_empty p\<rparr> | Rejected \<Rightarrow> s)"

text \<open>\<open>loadRecordsForPerson\<close> up to its first \<open>await\<close>: no effect without a handle or an
  id, else the index request.\<close>

definition load_records_for_person :: "doc_id \<Rightarrow> screen \<Rightarrow> request list" where
  "load_records_for_person personId' s = (if db s = None \<or> personId' = [] then [] else [RqIndex personId'])"

text \<open>After \<open>await createIndex(..)\<close>: the query is issued; a failure is caught.\<close>

definition records_after_index :: "doc_id \<Rightarrow> unit outcome \<Rightarrow> request list" where
  "records_after_index personId' r = (case r of Fulfilled _ \<Rightarrow> [RqFind personId'] | Rejected \<Rightarrow> [])"

text \<open>After \<open>await find(..)\<close>: the documents on success; on failure the records stay.\<close>

definition records_after_find :: "entry list option outcome \<Rightarrow> screen \<Rightarrow> screen" where
  "records_after_find r s = (case r of Fulfilled d \<Rightarrow> s\<lparr>records := list_or_empty d\<rparr> | Rejected \<Rightarrow> s)"

text \<open>\<open>onPersonSelect\<close>: the person is looked up in the area's list (not in the list the
  suggestion came from), the name and the query text are set from it, and the records
  are loaded.\<close>

definition on_person_select :: "doc_id \<Rightarrow> screen \<Rightarrow> screen \<times> request list" where
  "on_person_select personId' s =
     (let person = find (\<lambda>x. p_id x = personId') (personsInArea s)
      in (s\<lparr>selectedPersonId := personId',
            selectedPersonName :=
              js_or (case person of None \<Rightarrow> JUndefined | Some p \<Rightarrow> p_name p) (JStr ''''),
            connectionSuggestions := [],
            connectionQuery := (case person of None \<Rightarrow> '''' | Some p \<Rightarrow> conn_label p)\<rparr>,
          load_records_for_person personId' s))"

text \<open>The area input's \<open>onChange\<close>.\<close>

definition area_on_change :: "string \<Rightarrow> screen \<Rightarrow> screen" where
  "area_on_change q s =
     (if q = [] then s\<lparr>areaQuery := JStr q, areaSuggestions := []\<rparr>
      else s\<lparr>areaQuery := JStr q, areaSuggestions := area_filter (areas s) q\<rparr>)"

text \<open>A click on an area suggestion.\<close>

definition area_pick :: "area \<Rightarrow> screen \<Rightarrow> screen \<times> request list" where
  "area_pick a s = on_area_select (a_id a) (s\<lparr>areaQuery := js_or (a_name a) (JStr ''''), areaSuggestions := []\<rparr>)"

text \<open>The connection input's \<open>onChange\<close> up to its \<open>await\<close>: the in-area filter when an
  area is selected, else the store's free-text search when the handle offers it.\<close>

definition conn_on_change :: "string \<Rightarrow> screen \<Rightarrow> screen \<times> request list" where
  "conn_on_change q s =
     (let s1 = s\<lparr>connectionQuery := q\<rparr>
      in if q = [] then (s1\<lparr>connectionSuggestions := []\<rparr>, [])
         else if selectedArea s \<noteq> [] then (s1\<lparr>connectionSuggestions := person_filter (personsInArea s) q\<rparr>, [])
         else if (case db s of Some h \<Rightarrow> has_searchPersons h | None \<Rightarrow> False) then (s1, [RqSearch q])
         else (s1, []))"

text \<open>After \<open>await db.searchPersons(q)\<close>: the result replaces the suggestions; a failure
  empties them.\<close>

definition conn_search_after :: "person list option outcome \<Rightarrow> screen \<Rightarrow> screen" where
  "conn_search_after r s =
     (case r of Fulfilled res \<Rightarrow> s\<lparr>connectionSuggestions := list_or_empty res\<rparr>
      | Rejected \<Rightarrow> s\<lparr>connectionSuggestions := []\<rparr>)"

section \<open>Settling a request\<close>

text \<open>The continuation of a request applied to how it settled; \<open>None\<close> for a response of
  the wrong kind, which the store never gives. A rejected \<open>initDB\<close> ends the mount
  effect with an unhandled rejection: nothing changes.\<close>

fun settle :: "request \<Rightarrow> response outcome \<Rightarrow> screen \<Rightarrow> (screen \<times> request list) option" where
  "settle RqConnect Rejected s = Some (s, [])"
| "settle RqConnect (Fulfilled (RConnect h)) s = Some (setup_after_connect h s)"
| "settle RqAreas Rejected s = Some (setup_after_areas Rejected s, [])"
| "settle RqAreas (Fulfilled (RAreas a)) s = Some (setup_after_areas (Fulfilled a) s, [])"
| "settle (RqPersons _) Rejected s = Some (area_select_after_fetch Rejected s, [])"
| "settle (RqPersons _) (Fulfilled (RPersons p)) s = Some (area_select_after_fetch (Fulfilled p) s, [])"
| "settle (RqSearch _) Rejected s = Some (conn_search_after Rejected s, [])"
| "settle (RqSearch _) (Fulfilled (RPersons p)) s = Some (conn_search_after (Fulfilled p) s, [])"
| "settle (RqIndex pid) Rejected s = Some (s, records_after_index pid Rejected)"
| "settle (RqIndex pid) (Fulfilled RIndexed) s = Some (s, records_after_index pid (Fulfilled ()))"
| "settle (RqFind _) Rejected s = Some (records_after_find Rejected s, [])"
| "settle (RqFind _) (Fulfilled (RDocs d)) s = Some (records_after_find (Fulfilled d) s, [])"
| "settle _ _ _ = None"

section \<open>The machine\<close>

record sys =
  scr :: screen
  pending :: "request list"

text \<open>The mount effect runs once: the page starts loading with the connection requested.\<close>

definition init_sys :: sys where
  "init_sys = \<lparr>scr = init_screen, pending = [RqConnect]\<rparr>"

datatype event =
    AreaInput string
  | AreaClick area
  | ConnInput string
  | PersonClick person
  | Settle nat "response outcome"

definition issue :: "sys \<Rightarrow> screen \<times> request list \<Rightarrow> sys" where
  "issue st r = \<lparr>scr = fst r, pending = pending st @ snd r\<rparr>"

text \<open>One event. While loading, the page renders only its loading message, so no input is
  possible; a suggestion can be clicked only while it is listed.\<close>

fun step :: "sys \<Rightarrow> event \<Rightarrow> sys option" where
  "step st (AreaInput q) =
     (if loading (scr st) then None else Some (st\<lparr>scr := area_on_change q (scr st)\<rparr>))"
| "step st (AreaClick a) =
     (if loading (scr st) \<or> a \<notin> set (areaSuggestions (scr st)) then None
      else Some (issue st (area_pick a (scr st))))"
| "step st (ConnInput q) =
     (if loading (scr st) then None else Some (issue st (conn_on_change q (scr st))))"
| "step st (PersonClick p) =
     (if loading (scr st) \<or> p \<notin> set (connectionSuggestions (scr st)) then None
      else Some (issue st (on_person_select (p_id p) (scr st))))"
| "step st (Settle i r) =
     (if i < length (pending st) then
        (case settle (pending st ! i) r (scr st) of
           None \<Rightarrow> None
         | Some (s', rs) \<Rightarrow> Some \<lparr>scr = s', pending = remove_nth i (pending st) @ rs\<rparr>)
      else None)"

fun run :: "sys \<Rightarrow> event list \<Rightarrow> sys option" where
  "run st [] = Some st"
| "run st (e # es) = (case step st e of None \<Rightarrow> None | Some st' \<Rightarrow> run st' es)"

inductive reachable :: "sys \<Rightarrow> bool" where
  init: "reachable init_sys"
| step: "reachable st \<Longrightarrow> step st e = Some st' \<Longrightarrow> reachable st'"

section \<open>Concrete data for the examples\<close>

definition demo_north :: area where
  "demo_north = \<lparr>a_id = ''a1'', a_name = JStr ''North''\<rparr>"

definition demo_jane :: person where
  "demo_jane = \<lparr>p_id = ''p1'', areaId = ''a1'', connectionNumber = JStr ''12345'', number = JUndefined,
                 p_name = JStr ''Jane Doe''\<rparr>"

definition demo_bob :: person where
  "demo_bob = \<lparr>p_id = ''p2'', areaId = ''a1'', connectionNumber = JUndefined, number = JNull,
                p_name = JStr ''Bob''\<rparr>"

definition demo_handle :: dbh where
  "demo_handle = \<lparr>has_searchPersons = True\<rparr>"

text \<open>The page after a successful start: connected (with free-text search), one area
  loaded, nothing selected.\<close>

definition demo_ready :: sys where
  "demo_ready =
     \<lparr>scr = init_screen\<lparr>db := Some demo_handle, areas := [demo_north], loading := False\<rparr>,
      pending = []\<rparr>"

text \<open>The area list after typing ``No''.\<close>

definition demo_area_typed :: sys where
  "demo_area_typed =
     demo_ready\<lparr>scr := (scr demo_ready)\<lparr>areaQuery := JStr ''No'', areaSuggestions := [demo_north]\<rparr>\<rparr>"

text \<open>Area \<open>a1\<close> chosen and its persons loaded.\<close>

definition demo_area_chosen :: sys where
  "demo_area_chosen =
     demo_ready\<lparr>scr := (scr demo_ready)\<lparr>areaQuery := JStr ''North'', selectedArea := ''a1'',
                                        personsInArea := [demo_jane, demo_bob]\<rparr>\<rparr>"

text \<open>Then ``12'' typed in the connection input.\<close>

definition demo_conn_typed :: sys where
  "demo_conn_typed =
     demo_area_chosen\<lparr>scr := (scr demo_area_chosen)\<lparr>connectionQuery := ''12'',
                                                    connectionSuggestions := [demo_jane]\<rparr>\<rparr>"

declare setup_after_connect_def [handler_simps] setup_after_areas_def [handler_simps]
  on_area_select_def [handler_simps] area_select_after_fetch_def [handler_simps]
  load_records_for_person_def [handler_simps] records_after_index_def [handler_simps]
  records_after_find_def [handler_simps] on_person_select_def [handler_simps]
  area_on_change_def [handler_simps] area_pick_def [handler_simps]
  conn_on_change_def [handler_simps] conn_search_after_def [handler_simps] issue_def [handler_simps]

declare handler_simps [eval_simps] init_sys_def [eval_simps] init_screen_def [eval_simps]
  remove_nth_def [eval_simps] demo_north_def [eval_simps] demo_jane_def [eval_simps]
  demo_bob_def [eval_simps] demo_handle_def [eval_simps] demo_ready_def [eval_simps]
  demo_area_typed_def [eval_simps] demo_area_chosen_def [eval_simps] demo_conn_typed_def [eval_simps]

inductive_cases reachable_stepE: "reachable st'"
fun_cases step_SettleE: "step st (Settle i r) = Some st'"

section \<open>Runs and reachable states\<close>

lemma run_reachable: "reachable st \<Longrightarrow> run st es = Some st' \<Longrightarrow> reachable st'"
proof (induction es arbitrary: st)
  case Nil
  then show ?case by simp
next
  case (Cons e es)
  then obtain st1 where "step st e = Some st1" and "run st1 es = Some st'"
    by (auto split: option.splits)
  with Cons show ?case by (blast intro: reachable.step)
qed

lemma run_init_reachable: "run init_sys es = Some st \<Longrightarrow> reachable st"
  by (rule run_reachable [OF reachable.init])

lemma run_append: "run st (es @ fs) = (case run st es of None \<Rightarrow> None | Some st' \<Rightarrow> run st' fs)"
  by (induction es arbitrary: st) (auto split: option.splits)

section \<open>The demo states are reachable\<close>

lemma demo_ready_run:
  "run init_sys [Settle 0 (Fulfilled (RConnect (Some demo_handle))),
                 Settle 0 (Fulfilled (RAreas (Some [demo_north])))] = Some demo_ready"
  by (simp add: eval_simps)

lemma demo_ready_reachable: "reachable demo_ready"
  by (rule run_init_reachable [OF demo_ready_run])

lemma demo_area_typed_reachable: "reachable demo_area_typed"
proof -
  have "step demo_ready (AreaInput ''No'') = Some demo_area_typed"
    by (simp add: eval_simps)
  with demo_ready_reachable show ?thesis by (rule reachable.step)
qed

section \<open>Start-up\<close>

text \<open>When the handle is obtained but loading the areas fails, the page leaves its
  loading state with an empty area list and no outstanding request, without an error.\<close>

theorem startup_area_failure:
  "run init_sys [Settle 0 (Fulfilled (RConnect (Some h))), Settle 0 Rejected] =
     Some \<lparr>scr = init_screen\<lparr>db := Some h, loading := False\<rparr>, pending = []\<rparr>"
  by (simp add: handler_simps init_sys_def remove_nth_def)

section \<open>Handlers: functional behaviour\<close>

text \<open>C2: Clicking an area suggestion selects the area and resets everything downstream of
  it: the selected person and its name, the records, the connection text and its
  suggestions; the area text becomes the area's name and the area list closes. The
  persons of the previous area stay, and the persons of the new one are requested exactly
  when there is a handle and the id is not empty.\<close>

theorem area_click_resets:
  "step st (AreaClick a) = Some st' \<Longrightarrow>
   selectedArea (scr st') = a_id a \<and> selectedPersonId (scr st') = [] \<and>
   selectedPersonName (scr st') = JStr [] \<and> records (scr st') = [] \<and>
   connectionQuery (scr st') = [] \<and> connectionSuggestions (scr st') = [] \<and>
   areaQuery (scr st') = js_or (a_name a) (JStr []) \<and> areaSuggestions (scr st') = [] \<and>
   personsInArea (scr st') = personsInArea (scr st) \<and>
   pending st' = pending st @ (if db (scr st) = None \<or> a_id a = [] then [] else [RqPersons (a_id a)])"
  by (auto simp: handler_simps Let_def split: if_splits)

text \<open>C3: Typing in the connection input stores the text verbatim and then, on every
  branch of the handler: an empty text clears the suggestions; with an area selected the
  suggestions are the in-area filter of the text; with no area selected the store's
  free-text search is requested when the handle offers it (the suggestions stay until it
  settles), and nothing else happens otherwise.\<close>

theorem conn_input_behaviour:
  "step st (ConnInput q) = Some st' \<Longrightarrow>
   connectionQuery (scr st') = q \<and>
   (if q = [] then connectionSuggestions (scr st') = [] \<and> pending st' = pending st
    else if selectedArea (scr st) \<noteq> [] then
      connectionSuggestions (scr st') = person_filter (personsInArea (scr st)) q \<and> pending st' = pending st
    else if db (scr st) \<noteq> None \<and> has_searchPersons (the (db (scr st))) then
      connectionSuggestions (scr st') = connectionSuggestions (scr st) \<and> pending st' = pending st @ [RqSearch q]
    else connectionSuggestions (scr st') = connectionSuggestions (scr st) \<and> pending st' = pending st)"
  by (auto simp: handler_simps Let_def split: if_splits option.splits)

text \<open>C21: When the free-text search settles, its result replaces the suggestions exactly, with
  no filtering and no cap; a failed search empties them.\<close>

theorem search_settles_replace:
  "pending st ! i = RqSearch q \<Longrightarrow> step st (Settle i r) = Some st' \<Longrightarrow>
   connectionSuggestions (scr st') =
     (case r of Fulfilled (RPersons res) \<Rightarrow> list_or_empty res | _ \<Rightarrow> []) \<and>
   scr st' = (scr st)\<lparr>connectionSuggestions := connectionSuggestions (scr st')\<rparr>"
  by (elim step_SettleE) (auto simp: handler_simps split: if_splits option.splits outcome.splits response.splits
      elim: settle.elims)

text \<open>C22: Clicking a person suggestion that is in the area's person list selects it: the
  name shown is its name, the connection text becomes its connection label (connection
  number, else number, else name), the suggestions close, and the records are requested
  when there is a handle and an id.\<close>

theorem person_click_select:
  "step st (PersonClick p) = Some st' \<Longrightarrow>
   find (\<lambda>x. p_id x = p_id p) (personsInArea (scr st)) = Some p' \<Longrightarrow>
   selectedPersonId (scr st') = p_id p \<and> connectionQuery (scr st') = conn_label p' \<and>
   selectedPersonName (scr st') = js_or (p_name p') (JStr []) \<and> connectionSuggestions (scr st') = [] \<and>
   pending st' = pending st @ (if db (scr st) = None \<or> p_id p = [] then [] else [RqIndex (p_id p)])"
  by (auto simp: handler_simps Let_def split: if_splits)

text \<open>C23: A person suggestion that is not in the area's person list (a result of the
  free-text search) is selected with an empty name, and the connection text is cleared.\<close>

theorem person_click_unlisted:
  "step st (PersonClick p) = Some st' \<Longrightarrow>
   find (\<lambda>x. p_id x = p_id p) (personsInArea (scr st)) = None \<Longrightarrow>
   selectedPersonId (scr st') = p_id p \<and> connectionQuery (scr st') = [] \<and>
   selectedPersonName (scr st') = JStr []"
  by (auto simp: handler_simps Let_def js_or_def split: if_splits)


section \<open>Witnesses\<close>

theorem area_click_resets_witness:
  "\<exists>st'. step demo_area_typed (AreaClick demo_north) = Some st' \<and>
         selectedArea (scr st') = ''a1'' \<and> areaQuery (scr st') = JStr ''North'' \<and>
         pending st' = [RqPersons ''a1'']"
proof -
  have "step demo_area_typed (AreaClick demo_north) \<noteq> None" by (simp add: eval_simps)
  then obtain st' where s: "step demo_area_typed (AreaClick demo_north) = Some st'" by blast
  from area_click_resets [OF s] s show ?thesis by (simp add: eval_simps)
qed

theorem conn_input_behaviour_witness:
  "\<exists>st'. step demo_area_chosen (ConnInput ''12'') = Some st' \<and>
         connectionSuggestions (scr st') = [demo_jane] \<and> pending st' = []"
proof -
  have "step demo_area_chosen (ConnInput ''12'') \<noteq> None" by (simp add: eval_simps)
  then obtain st' where s: "step demo_area_chosen (ConnInput ''12'') = Some st'" by blast
  have f: "person_filter [demo_jane, demo_bob] ''12'' = [demo_jane]" by (simp add: eval_simps)
  from conn_input_behaviour [OF s] s f show ?thesis by (simp add: eval_simps)
qed

theorem search_settles_replace_witness:
  "\<exists>st'. step (demo_ready\<lparr>pending := [RqSearch ''Bo'']\<rparr>) (Settle 0 (Fulfilled (RPersons (Some [demo_bob]))))
           = Some st' \<and> connectionSuggestions (scr st') = [demo_bob]"
proof -
  let ?st = "demo_ready\<lparr>pending := [RqSearch ''Bo'']\<rparr>"
  have p: "pending ?st ! 0 = RqSearch ''Bo''" by simp
  have "step ?st (Settle 0 (Fulfilled (RPersons (Some [demo_bob])))) \<noteq> None" by (simp add: eval_simps)
  then obtain st' where s: "step ?st (Settle 0 (Fulfilled (RPersons (Some [demo_bob])))) = Some st'" by blast
  from search_settles_replace [OF p s] s show ?thesis by (simp add: list_or_empty_def)
qed

theorem person_click_select_witness:
  "\<exists>st'. step demo_conn_typed (PersonClick demo_jane) = Some st' \<and>
         connectionQuery (scr st') = ''12345'' \<and> selectedPersonName (scr st') = JStr ''Jane Doe'' \<and>
         pending st' = [RqIndex ''p1'']"
proof -
  have "step demo_conn_typed (PersonClick demo_jane) \<noteq> None" by (simp add: eval_simps)
  then obtain st' where s: "step demo_conn_typed (PersonClick demo_jane) = Some st'" by blast
  have f: "find (\<lambda>x. p_id x = p_id demo_jane) (personsInArea (scr demo_conn_typed)) = Some demo_jane"
    by (simp add: eval_simps)
  from person_click_select [OF s f] s show ?thesis by (simp add: eval_simps)
qed

theorem person_click_unlisted_witness:
  "\<exists>st'. step (demo_ready\<lparr>scr := (scr demo_ready)\<lparr>connectionQuery := ''Bo'',
                                                     connectionSuggestions := [demo_bob]\<rparr>\<rparr>)
              (PersonClick demo_bob) = Some st' \<and>
         connectionQuery (scr st') = [] \<and> selectedPersonName (scr st') = JStr []"
proof -
  let ?st = "demo_ready\<lparr>scr := (scr demo_ready)\<lparr>connectionQuery := ''Bo'', connectionSuggestions := [demo_bob]\<rparr>\<rparr>"
  have "step ?st (PersonClick demo_bob) \<noteq> None" by (simp add: eval_simps)
  then obtain st' where s: "step ?st (PersonClick demo_bob) = Some st'" by blast
  have f: "find (\<lambda>x. p_id x = p_id demo_bob) (personsInArea (scr ?st)) = None" by (simp add: eval_simps)
  from person_click_unlisted [OF s f] s show ?thesis by blast
qed

end
