(* ===== verification/Screen_Inv.thy ===== *)
theory Screen_Inv
  imports Screen
begin

text \<open>
  Invariants of the reachable states of the screen machine. The mount effect's two
  requests (\<open>RqConnect\<close>, then \<open>RqAreas\<close>) are its only requests while the page is
  loading, and at most one of them is outstanding. The loading flag is cleared only by the
  areas request, which exists only once a handle is stored. The area suggestions are
  computed only after the areas are loaded, and only by the capped filter. From these
  follow: the page never leaves its loading state without a connection, without a
  connection it is frozen for good, and the area suggestions are loaded areas, at most 20.
\<close>

definition is_setup :: "request \<Rightarrow> bool" where
  "is_setup r \<longleftrightarrow> r = RqConnect \<or> r = RqAreas"

definition screen_inv :: "sys \<Rightarrow> bool" where
  "screen_inv st \<longleftrightarrow>
     (\<not> loading (scr st) \<longrightarrow> db (scr st) \<noteq> None) \<and>
     (loading (scr st) \<longrightarrow> areaSuggestions (scr st) = [] \<and> list_all is_setup (pending st)) \<and>
     (RqAreas \<in> set (pending st) \<longrightarrow> loading (scr st) \<and> db (scr st) \<noteq> None) \<and>
     (RqConnect \<in> set (pending st) \<longrightarrow> loading (scr st)) \<and>
     length (filter is_setup (pending st)) \<le> 1 \<and>
     set (areaSuggestions (scr st)) \<subseteq> set (areas (scr st)) \<and>
     length (areaSuggestions (scr st)) \<le> 20"

section \<open>One step\<close>

lemma screen_inv_init: "screen_inv init_sys"
  by (simp add: screen_inv_def init_sys_def init_screen_def is_setup_def)

text \<open>A user input happens only when the page is not loading; it changes neither the
  handle, the areas nor the loading flag, and issues no setup request.\<close>

lemma ui_handlers_frame:
  "area_on_change q s = s' \<Longrightarrow> db s' = db s \<and> areas s' = areas s \<and> loading s' = loading s"
  "area_pick a s = (s', rs) \<Longrightarrow> db s' = db s \<and> areas s' = areas s \<and> loading s' = loading s \<and>
     areaSuggestions s' = [] \<and> \<not> list_ex is_setup rs"
  "conn_on_change q s = (s', rs) \<Longrightarrow> db s' = db s \<and> areas s' = areas s \<and> loading s' = loading s \<and>
     areaSuggestions s' = areaSuggestions s \<and> \<not> list_ex is_setup rs"
  "on_person_select pid s = (s', rs) \<Longrightarrow> db s' = db s \<and> areas s' = areas s \<and> loading s' = loading s \<and>
     areaSuggestions s' = areaSuggestions s \<and> \<not> list_ex is_setup rs"
  by (auto simp: handler_simps Let_def is_setup_def split: if_splits)

lemma settle_other_frame:
  "settle rq r s = Some (s', rs) \<Longrightarrow> \<not> is_setup rq \<Longrightarrow>
   db s' = db s \<and> areas s' = areas s \<and> loading s' = loading s \<and>
   areaSuggestions s' = areaSuggestions s \<and> \<not> list_ex is_setup rs"
  by (erule settle.elims) (auto simp: handler_simps is_setup_def split: outcome.splits)

lemma settle_connect:
  "settle RqConnect r s = Some (s', rs) \<Longrightarrow>
   (s' = s \<and> rs = []) \<or> (\<exists>h. s' = s\<lparr>db := Some h\<rparr> \<and> rs = [RqAreas])"
  by (erule settle.elims) (auto simp: handler_simps split: option.splits)

lemma settle_areas:
  "settle RqAreas r s = Some (s', rs) \<Longrightarrow>
   rs = [] \<and> \<not> loading s' \<and> db s' = db s \<and> areaSuggestions s' = areaSuggestions s"
  by (erule settle.elims) (auto simp: handler_simps split: outcome.splits)

text \<open>Removing the one outstanding setup request leaves none.\<close>

lemma remove_setup_leaves_none:
  "i < length xs \<Longrightarrow> is_setup (xs ! i) \<Longrightarrow> length (filter is_setup xs) \<le> 1 \<Longrightarrow>
   \<not> list_ex is_setup (remove_nth i xs)"
proof -
  assume i: "i < length xs" and r: "is_setup (xs ! i)" and c: "length (filter is_setup xs) \<le> 1"
  from remove_nth_filter_length [of i xs is_setup] i r
  have "length (filter is_setup (remove_nth i xs)) + 1 = length (filter is_setup xs)" by simp
  with c have "length (filter is_setup (remove_nth i xs)) = 0" by linarith
  then show ?thesis by (simp add: list_ex_iff filter_empty_conv)
qed

lemma remove_other_setup_count:
  "i < length xs \<Longrightarrow> \<not> is_setup (xs ! i) \<Longrightarrow>
   length (filter is_setup (remove_nth i xs)) = length (filter is_setup xs)"
  using remove_nth_filter_length [of i xs is_setup] by simp

lemma ui_step_inv:
  assumes inv: "screen_inv st" and nl: "\<not> loading (scr st)"
    and s': "scr st' = s'" and p': "pending st' = pending st @ rs"
    and fr: "db s' = db (scr st) \<and> areas s' = areas (scr st) \<and> loading s' = loading (scr st) \<and>
      (areaSuggestions s' = areaSuggestions (scr st) \<or>
       set (areaSuggestions s') \<subseteq> set (areas (scr st)) \<and> length (areaSuggestions s') \<le> 20) \<and>
      \<not> list_ex is_setup rs"
  shows "screen_inv st'"
proof -
  have "filter is_setup rs = []" using fr by (auto simp: list_ex_iff filter_empty_conv)
  then show ?thesis using inv nl fr unfolding screen_inv_def s' p'
    by (auto simp: list_ex_iff is_setup_def)
qed

lemma settle_connect_inv:
  assumes inv: "screen_inv st" and i: "i < length (pending st)" and rq: "pending st ! i = RqConnect"
    and se: "settle (pending st ! i) r (scr st) = Some (s', rs)"
  shows "screen_inv \<lparr>scr = s', pending = remove_nth i (pending st) @ rs\<rparr>"
proof -
  have mem: "RqConnect \<in> set (pending st)" using i rq by (metis nth_mem)
  with inv have ld: "loading (scr st)" by (simp add: screen_inv_def)
  from inv i rq have none: "\<not> list_ex is_setup (remove_nth i (pending st))"
    by (intro remove_setup_leaves_none) (simp_all add: screen_inv_def is_setup_def)
  have sub: "set (remove_nth i (pending st)) \<subseteq> set (pending st)" by (rule set_remove_nth_subset)
  from se rq have "settle RqConnect r (scr st) = Some (s', rs)" by simp
  then have "(s' = scr st \<and> rs = []) \<or> (\<exists>h. s' = (scr st)\<lparr>db := Some h\<rparr> \<and> rs = [RqAreas])"
    by (rule settle_connect)
  then show ?thesis
    using inv ld none sub unfolding screen_inv_def
    by (auto simp: list_ex_iff list_all_iff filter_empty_conv is_setup_def)
qed

lemma settle_areas_inv:
  assumes inv: "screen_inv st" and i: "i < length (pending st)" and rq: "pending st ! i = RqAreas"
    and se: "settle (pending st ! i) r (scr st) = Some (s', rs)"
  shows "screen_inv \<lparr>scr = s', pending = remove_nth i (pending st) @ rs\<rparr>"
proof -
  have mem: "RqAreas \<in> set (pending st)" using i rq by (metis nth_mem)
  with inv have ld: "loading (scr st)" and h: "db (scr st) \<noteq> None" by (simp_all add: screen_inv_def)
  with inv have as: "areaSuggestions (scr st) = []" by (simp add: screen_inv_def)
  from inv i rq have none: "\<not> list_ex is_setup (remove_nth i (pending st))"
    by (intro remove_setup_leaves_none) (simp_all add: screen_inv_def is_setup_def)
  from se rq have "settle RqAreas r (scr st) = Some (s', rs)" by simp
  then have "rs = [] \<and> \<not> loading s' \<and> db s' = db (scr st) \<and> areaSuggestions s' = areaSuggestions (scr st)"
    by (rule settle_areas)
  then show ?thesis
    using h as none unfolding screen_inv_def
    by (auto simp: list_ex_iff filter_empty_conv is_setup_def)
qed

lemma settle_other_inv:
  assumes inv: "screen_inv st" and i: "i < length (pending st)" and rq: "\<not> is_setup (pending st ! i)"
    and se: "settle (pending st ! i) r (scr st) = Some (s', rs)"
  shows "screen_inv \<lparr>scr = s', pending = remove_nth i (pending st) @ rs\<rparr>"
proof -
  have "pending st ! i \<in> set (pending st)" using i by (rule nth_mem)
  with inv rq have nl: "\<not> loading (scr st)" by (auto simp: screen_inv_def list_all_iff)
  from se rq have fr: "db s' = db (scr st) \<and> areas s' = areas (scr st) \<and> loading s' = loading (scr st) \<and>
      areaSuggestions s' = areaSuggestions (scr st) \<and> \<not> list_ex is_setup rs"
    by (rule settle_other_frame)
  then have rs: "filter is_setup rs = []" by (auto simp: list_ex_iff filter_empty_conv)
  have cnt: "length (filter is_setup (remove_nth i (pending st))) = length (filter is_setup (pending st))"
    using i rq by (rule remove_other_setup_count)
  have sub: "set (remove_nth i (pending st)) \<subseteq> set (pending st)" by (rule set_remove_nth_subset)
  show ?thesis
    using inv nl fr rs cnt sub unfolding screen_inv_def
    by (auto simp: list_ex_iff is_setup_def)
qed

lemma step_inv: "screen_inv st \<Longrightarrow> step st e = Some st' \<Longrightarrow> screen_inv st'"
proof (cases e)
  case (AreaInput q)
  assume inv: "screen_inv st" and s: "step st e = Some st'"
  with AreaInput have nl: "\<not> loading (scr st)" and st': "st' = st\<lparr>scr := area_on_change q (scr st)\<rparr>"
    by (auto split: if_splits)
  have "set (area_filter (areas (scr st)) q) \<subseteq> set (areas (scr st)) \<and> length (area_filter (areas (scr st)) q) \<le> 20"
    by (rule area_filter_bound)
  then show ?thesis
    by (intro ui_step_inv [OF inv nl, where rs = "[]"]) (auto simp: st' area_on_change_def split: if_splits)
next
  case (AreaClick a)
  assume inv: "screen_inv st" and s: "step st e = Some st'"
  with AreaClick have nl: "\<not> loading (scr st)" and st': "st' = issue st (area_pick a (scr st))"
    by (auto split: if_splits)
  let ?r = "area_pick a (scr st)"
  from ui_handlers_frame(2) [of a "scr st" "fst ?r" "snd ?r"] show ?thesis
    by (intro ui_step_inv [OF inv nl]) (auto simp: st' issue_def)
next
  case (ConnInput q)
  assume inv: "screen_inv st" and s: "step st e = Some st'"
  with ConnInput have nl: "\<not> loading (scr st)" and st': "st' = issue st (conn_on_change q (scr st))"
    by (auto split: if_splits)
  let ?r = "conn_on_change q (scr st)"
  from ui_handlers_frame(3) [of q "scr st" "fst ?r" "snd ?r"] show ?thesis
    by (intro ui_step_inv [OF inv nl]) (auto simp: st' issue_def)
next
  case (PersonClick p)
  assume inv: "screen_inv st" and s: "step st e = Some st'"
  with PersonClick have nl: "\<not> loading (scr st)" and st': "st' = issue st (on_person_select (p_id p) (scr st))"
    by (auto split: if_splits)
  let ?r = "on_person_select (p_id p) (scr st)"
  from ui_handlers_frame(4) [of "p_id p" "scr st" "fst ?r" "snd ?r"] show ?thesis
    by (intro ui_step_inv [OF inv nl]) (auto simp: st' issue_def)
next
  case (Settle i r)
  assume inv: "screen_inv st" and s: "step st e = Some st'"
  with Settle obtain s' rs where i: "i < length (pending st)"
    and se: "settle (pending st ! i) r (scr st) = Some (s', rs)"
    and st': "st' = \<lparr>scr = s', pending = remove_nth i (pending st) @ rs\<rparr>"
    by (auto split: if_splits option.splits)
  consider "pending st ! i = RqConnect" | "pending st ! i = RqAreas" | "\<not> is_setup (pending st ! i)"
    by (auto simp: is_setup_def)
  then show ?thesis
  proof cases
    case 1
    from settle_connect_inv [OF inv i 1 se] show ?thesis by (simp add: st')
  next
    case 2
    from settle_areas_inv [OF inv i 2 se] show ?thesis by (simp add: st')
  next
    case 3
    from settle_other_inv [OF inv i 3 se] show ?thesis by (simp add: st')
  qed
qed

lemma reachable_inv: "reachable st \<Longrightarrow> screen_inv st"
proof (induction rule: reachable.induct)
  case init
  show ?case by (rule screen_inv_init)
next
  case (step st e st')
  then show ?case by (blast intro: step_inv)
qed

section \<open>Properties of the reachable states\<close>

text \<open>C9: The page leaves its loading state only once the store has given it a connection
  handle.\<close>

theorem loading_cleared_only_with_connection:
  "reachable st \<Longrightarrow> \<not> loading (scr st) \<Longrightarrow> db (scr st) \<noteq> None"
  by (drule reachable_inv) (simp add: screen_inv_def)

text \<open>C10: When \<open>initDB\<close> gives no handle, the page is frozen: it stays in its loading
  state, and no event of any kind can happen any more (nothing is outstanding and no input
  is rendered).\<close>

theorem frozen_without_connection:
  "reachable st \<Longrightarrow> db (scr st) = None \<Longrightarrow> RqConnect \<notin> set (pending st) \<Longrightarrow>
   loading (scr st) \<and> pending st = [] \<and> step st e = None"
proof -
  assume r: "reachable st" and nd: "db (scr st) = None" and nc: "RqConnect \<notin> set (pending st)"
  from r have inv: "screen_inv st" by (rule reachable_inv)
  with nd have ld: "loading (scr st)" by (auto simp: screen_inv_def)
  from inv nd have "RqAreas \<notin> set (pending st)" by (auto simp: screen_inv_def)
  with inv ld nc have np: "pending st = []"
    by (cases "pending st") (auto simp: screen_inv_def is_setup_def)
  from ld np have "step st e = None" by (cases e) simp_all
  with ld np show ?thesis by simp
qed

text \<open>C24: In every reachable state the area suggestions are loaded areas, at most 20 of them.\<close>

theorem area_suggestions_bounded:
  "reachable st \<Longrightarrow> set (areaSuggestions (scr st)) \<subseteq> set (areas (scr st)) \<and> length (areaSuggestions (scr st)) \<le> 20"
  by (drule reachable_inv) (simp add: screen_inv_def)

section \<open>Witnesses\<close>

theorem loading_cleared_only_with_connection_witness:
  "reachable demo_ready \<and> \<not> loading (scr demo_ready) \<and> db (scr demo_ready) \<noteq> None"
proof -
  have nl: "\<not> loading (scr demo_ready)" by (simp add: eval_simps)
  from loading_cleared_only_with_connection [OF demo_ready_reachable nl] nl demo_ready_reachable
  show ?thesis by blast
qed

theorem frozen_without_connection_witness:
  "reachable \<lparr>scr = init_screen, pending = []\<rparr> \<and>
   loading (scr \<lparr>scr = init_screen, pending = []\<rparr>) \<and>
   step \<lparr>scr = init_screen, pending = []\<rparr> (AreaInput ''N'') = None"
proof -
  have "run init_sys [Settle 0 (Fulfilled (RConnect None))] = Some \<lparr>scr = init_screen, pending = []\<rparr>"
    by (simp add: eval_simps)
  then have r: "reachable \<lparr>scr = init_screen, pending = []\<rparr>" by (rule run_init_reachable)
  have nd: "db (scr \<lparr>scr = init_screen, pending = []\<rparr>) = None" by (simp add: init_screen_def)
  have nc: "RqConnect \<notin> set (pending \<lparr>scr = init_screen, pending = []\<rparr>)" by simp
  from frozen_without_connection [OF r nd nc] r show ?thesis by blast
qed

theorem area_suggestions_bounded_witness:
  "reachable demo_area_typed \<and> set (areaSuggestions (scr demo_area_typed)) \<subseteq> set (areas (scr demo_area_typed))
   \<and> length (areaSuggestions (scr demo_area_typed)) \<le> 20"
  using area_suggestions_bounded [OF demo_area_typed_reachable] demo_area_typed_reachable by blast

end
