(* ===== verification/Environment.thy ===== *)
theory Environment
  imports Screen_Inv
begin

text \<open>
  The screen running against the store. A fulfilled request gets the store's answer as the
  service contract gives it, computed when the request settles. Any request may instead
  fail. Index creation changes the store. The user's inputs are those of the screen
  machine. \<open>world_step\<close> is the composed machine and \<open>world_reachable\<close> its
  reachable states from a given store. Every world step is a step of the screen machine,
  so the screen's invariants hold here too.
\<close>

definition store_answer :: "store \<Rightarrow> request \<Rightarrow> response" where
  "store_answer st rq =
     (case rq of
        RqConnect \<Rightarrow> RConnect (init_db st)
      | RqAreas \<Rightarrow> RAreas (Some (get_areas st))
      | RqPersons aid \<Rightarrow> RPersons (Some (get_persons_by_area st aid))
      | RqSearch q \<Rightarrow> RPersons (Some (search_persons st q))
      | RqIndex _ \<Rightarrow> RIndexed
      | RqFind pid \<Rightarrow> RDocs (Some (find_docs st pid)))"

definition store_effect :: "request \<Rightarrow> store \<Rightarrow> store" where
  "store_effect rq st = (case rq of RqIndex _ \<Rightarrow> create_index st record_index | _ \<Rightarrow> st)"

record world =
  w_sys :: sys
  w_store :: store

definition init_world :: "store \<Rightarrow> world" where
  "init_world st = \<lparr>w_sys = init_sys, w_store = st\<rparr>"

datatype env_event = User event | Answer nat | Fail nat

fun is_user_event :: "event \<Rightarrow> bool" where
  "is_user_event (Settle _ _) = False"
| "is_user_event _ = True"

fun world_step :: "world \<Rightarrow> env_event \<Rightarrow> world option" where
  "world_step w (User e) =
     (if is_user_event e then map_option (\<lambda>st'. w\<lparr>w_sys := st'\<rparr>) (step (w_sys w) e) else None)"
| "world_step w (Answer i) =
     (if i < length (pending (w_sys w)) then
        map_option (\<lambda>st'. \<lparr>w_sys = st', w_store = store_effect (pending (w_sys w) ! i) (w_store w)\<rparr>)
          (step (w_sys w) (Settle i (Fulfilled (store_answer (w_store w) (pending (w_sys w) ! i)))))
      else None)"
| "world_step w (Fail i) = map_option (\<lambda>st'. w\<lparr>w_sys := st'\<rparr>) (step (w_sys w) (Settle i Rejected))"

fun world_run :: "world \<Rightarrow> env_event list \<Rightarrow> world option" where
  "world_run w [] = Some w"
| "world_run w (ev # evs) = (case world_step w ev of None \<Rightarrow> None | Some w' \<Rightarrow> world_run w' evs)"

inductive world_reachable :: "store \<Rightarrow> world \<Rightarrow> bool" for st0 :: store where
  init: "world_reachable st0 (init_world st0)"
| step: "world_reachable st0 w \<Longrightarrow> world_step w ev = Some w' \<Longrightarrow> world_reachable st0 w'"

declare store_answer_def [eval_simps] store_effect_def [eval_simps] init_world_def [eval_simps]
  init_db_def [eval_simps] get_areas_def [eval_simps] get_persons_by_area_def [eval_simps]
  search_persons_def [eval_simps] create_index_def [eval_simps] debit_selector_def [eval_simps]
  find_docs_def [eval_simps] record_index_def [eval_simps]

section \<open>The composed machine refines the screen machine\<close>

lemma world_step_screen_step:
  "world_step w ev = Some w' \<Longrightarrow> \<exists>e. step (w_sys w) e = Some (w_sys w')"
  by (cases ev) (auto simp del: step.simps split: if_splits)

lemma world_reachable_reachable: "world_reachable st0 w \<Longrightarrow> reachable (w_sys w)"
proof (induction rule: world_reachable.induct)
  case init
  show ?case by (simp add: init_world_def reachable.init)
next
  case (step w ev w')
  then show ?case by (blast dest: world_step_screen_step intro: reachable.step)
qed

lemma world_step_docs: "world_step w ev = Some w' \<Longrightarrow> st_docs (w_store w') = st_docs (w_store w)"
  by (cases ev) (auto simp: store_effect_def split: if_splits request.splits)

lemma world_run_reachable:
  "world_reachable st0 w \<Longrightarrow> world_run w evs = Some w' \<Longrightarrow> world_reachable st0 w'"
proof (induction evs arbitrary: w)
  case Nil
  then show ?case by simp
next
  case (Cons ev evs)
  then obtain w1 where "world_step w ev = Some w1" and "world_run w1 evs = Some w'"
    by (auto split: option.splits)
  with Cons show ?case by (blast intro: world_reachable.step)
qed

section \<open>Where the records come from\<close>

text \<open>A step leaves the records alone, empties them, or sets them to the documents a
  \<open>find\<close> request was fulfilled with.\<close>

lemma step_records:
  "step st e = Some st' \<Longrightarrow>
   records (scr st') = records (scr st) \<or> records (scr st') = [] \<or>
   (\<exists>i pid d. e = Settle i (Fulfilled (RDocs d)) \<and> i < length (pending st) \<and>
              pending st ! i = RqFind pid \<and> records (scr st') = list_or_empty d)"
proof (cases e)
  case (Settle i r)
  assume s: "step st e = Some st'"
  with Settle obtain s' rs where i: "i < length (pending st)"
    and se: "settle (pending st ! i) r (scr st) = Some (s', rs)" and st': "scr st' = s'"
    by (auto split: if_splits option.splits)
  from se have "records s' = records (scr st) \<or>
      (\<exists>pid d. r = Fulfilled (RDocs d) \<and> pending st ! i = RqFind pid \<and> records s' = list_or_empty d)"
    by (elim settle.elims) (auto simp: handler_simps split: outcome.splits option.splits)
  with Settle i st' show ?thesis by blast
qed (auto simp: handler_simps Let_def split: if_splits)

definition records_from_store :: "world \<Rightarrow> bool" where
  "records_from_store w \<longleftrightarrow>
     (\<forall>r \<in> set (records (scr (w_sys w))). r \<in> set (st_docs (w_store w)) \<and> r_type r = JStr ''debit'')"

lemma world_step_records_from_store:
  assumes inv: "records_from_store w" and ws: "world_step w ev = Some w'"
  shows "records_from_store w'"
proof -
  have docs: "st_docs (w_store w') = st_docs (w_store w)" using ws by (rule world_step_docs)
  show ?thesis
  proof (cases ev)
    case (User e)
    with ws have "step (w_sys w) e = Some (w_sys w')" and ne: "is_user_event e"
      by (auto simp del: step.simps split: if_splits)
    from step_records [OF this(1)] ne have "records (scr (w_sys w')) = records (scr (w_sys w)) \<or>
        records (scr (w_sys w')) = []" by auto
    with inv docs show ?thesis by (auto simp: records_from_store_def)
  next
    case (Answer i)
    with ws have i: "i < length (pending (w_sys w))" and
      s: "step (w_sys w) (Settle i (Fulfilled (store_answer (w_store w) (pending (w_sys w) ! i)))) = Some (w_sys w')"
      by (auto simp del: step.simps split: if_splits)
    from step_records [OF s] i
    have "records (scr (w_sys w')) = records (scr (w_sys w)) \<or> records (scr (w_sys w')) = [] \<or>
        (\<exists>pid. pending (w_sys w) ! i = RqFind pid \<and>
               records (scr (w_sys w')) = find_docs (w_store w) pid)"
      by (auto simp: store_answer_def list_or_empty_def split: request.splits)
    with inv docs show ?thesis
      by (auto simp: records_from_store_def find_docs_def debit_selector_def)
  next
    case (Fail i)
    with ws have "step (w_sys w) (Settle i Rejected) = Some (w_sys w')" by (auto simp del: step.simps)
    from step_records [OF this] have "records (scr (w_sys w')) = records (scr (w_sys w)) \<or>
        records (scr (w_sys w')) = []" by auto
    with inv docs show ?thesis by (auto simp: records_from_store_def)
  qed
qed

lemma world_reachable_records: "world_reachable st0 w \<Longrightarrow> records_from_store w"
proof (induction rule: world_reachable.induct)
  case init
  show ?case by (simp add: records_from_store_def init_world_def init_sys_def init_screen_def)
next
  case (step w ev w')
  from step.IH step.hyps(2) show ?case by (rule world_step_records_from_store)
qed

lemma world_reachable_docs: "world_reachable st0 w \<Longrightarrow> st_docs (w_store w) = st_docs st0"
proof (induction rule: world_reachable.induct)
  case init
  show ?case by (simp add: init_world_def)
next
  case (step w ev w')
  then show ?case by (simp add: world_step_docs)
qed

end
