(* ===== verification/Render.thy ===== *)
theory Render
  imports Entities
begin

text \<open>
  The records table of page.tsx (lines 193-212): the empty message when there are no
  records, otherwise one row per record with the month, the amount as
  \<open>$\<close> followed by \<open>Number(r.amount).toFixed(2)\<close>, and the creation time or \<open>-\<close>.
  \<open>toFixed(2)\<close> is modelled on the exact value of the amount as ECMAScript specifies
  it for values below \<open>10^21\<close>: the integer \<open>n\<close> nearest to \<open>100 x\<close>, the larger one
  on a tie, printed with at least three digits and a point before the last two, and a
  sign for negative values. From \<open>10^21\<close> on, \<open>toFixed\<close> returns the sign and
  \<open>Number::toString\<close> of the magnitude (exponent notation such as \<open>1e+21\<close>); that
  printing and the locale-dependent \<open>toLocaleString\<close> are host functions, the two
  fields of the parameter \<open>host_fmt\<close>. Non-numeric amounts (\<open>NaN\<close>) do not occur:
  amounts are rationals.
\<close>

section \<open>Number.prototype.toFixed(2)\<close>

definition round_cents :: "rat \<Rightarrow> nat" where
  "round_cents x = nat \<lfloor>x * 100 + 1 / 2\<rfloor>"

definition fixed_point2 :: "nat \<Rightarrow> string" where
  "fixed_point2 n =
     (let m = nat_digits n;
          m' = (if length m \<le> 2 then replicate (3 - length m) (CHR ''0'') @ m else m);
          k = length m'
      in take (k - 2) m' @ ''.'' @ drop (k - 2) m')"

text \<open>\<open>toFixed(2)\<close> on a finite value: the sign, then \<open>Number::toString\<close> of the
  magnitude from \<open>10^21\<close> on, else the rounded magnitude in fixed notation.\<close>

definition to_fixed2 :: "(rat \<Rightarrow> string) \<Rightarrow> rat \<Rightarrow> string" where
  "to_fixed2 num_str x =
     (let s = (if x < 0 then ''-'' else ''''); y = \<bar>x\<bar>
      in s @ (if 10 ^ 21 \<le> y then num_str y else fixed_point2 (round_cents y)))"

section \<open>The records table\<close>

text \<open>The host's formatting functions the table uses: \<open>Date.prototype.toLocaleString\<close>
  on \<open>createdAt\<close> and \<open>Number::toString\<close> on amounts of \<open>10^21\<close> and more.\<close>

record host_fmt =
  fmt_locale :: "jsval \<Rightarrow> string"
  fmt_number :: "rat \<Rightarrow> string"

text \<open>A host for the examples; neither function is reached by their data.\<close>

definition plain_fmt :: host_fmt where
  "plain_fmt = \<lparr>fmt_locale = (\<lambda>_. []), fmt_number = (\<lambda>_. [])\<rparr>"

datatype records_section = NoRecords | RecordRows "(string \<times> string \<times> string) list"

definition render_created :: "(jsval \<Rightarrow> string) \<Rightarrow> entry \<Rightarrow> string" where
  "render_created toLocale r = (if js_truthy (createdAt r) then toLocale (createdAt r) else ''-'')"

definition render_row :: "host_fmt \<Rightarrow> entry \<Rightarrow> string \<times> string \<times> string" where
  "render_row fmt r =
     (react_text (month r), CHR ''$'' # to_fixed2 (fmt_number fmt) (amount r),
      render_created (fmt_locale fmt) r)"

definition records_view :: "host_fmt \<Rightarrow> entry list \<Rightarrow> records_section" where
  "records_view fmt recs = (if recs = [] then NoRecords else RecordRows (map (render_row fmt) recs))"

declare round_cents_def [eval_simps] fixed_point2_def [eval_simps] to_fixed2_def [eval_simps]
  render_created_def [eval_simps] render_row_def [eval_simps] records_view_def [eval_simps]
  plain_fmt_def [eval_simps]

section \<open>Reading a two-decimal string back\<close>

definition parse_unsigned2 :: "string \<Rightarrow> rat option" where
  "parse_unsigned2 s =
     (let k = length s
      in if 4 \<le> k \<and> s ! (k - 3) = CHR ''.'' \<and> list_all is_digit (take (k - 3) s) \<and>
            list_all is_digit (drop (k - 2) s)
         then Some (of_nat (digits_value (take (k - 3) s @ drop (k - 2) s)) / 100) else None)"

definition parse_fixed2 :: "string \<Rightarrow> rat option" where
  "parse_fixed2 s =
     (if s \<noteq> [] \<and> hd s = CHR ''-'' then map_option uminus (parse_unsigned2 (tl s)) else parse_unsigned2 s)"

text \<open>The value a two-decimal string denotes.\<close>

definition cents_value :: "rat \<Rightarrow> rat" where
  "cents_value x = (if x < 0 then - (of_nat (round_cents (- x)) / 100) else of_nat (round_cents x) / 100)"

section \<open>Facts\<close>

lemma floor_numeral_divide [eval_simps]:
  "\<lfloor>(numeral a :: rat) / numeral b\<rfloor> = numeral a div numeral b"
  using floor_divide_of_int_eq [of "numeral a" "numeral b", where ?'a = rat] by simp

lemma padded_digits:
  fixes n :: nat
  defines "m \<equiv> nat_digits n"
  defines "m' \<equiv> (if length m \<le> 2 then replicate (3 - length m) (CHR ''0'') @ m else m)"
  shows "3 \<le> length m' \<and> list_all is_digit m' \<and> digits_value m' = n"
proof -
  have z: "is_digit (CHR ''0'')" by (simp add: is_digit_def)
  have "m \<noteq> []" by (simp add: m_def)
  then have "3 \<le> length m'" by (cases m) (auto simp: m'_def)
  moreover have "list_all is_digit m'"
    using z nat_digits_all_digits [of n] by (auto simp: m'_def m_def list_all_iff)
  moreover have "digits_value m' = n" by (simp add: m'_def m_def digits_value_append)
  ultimately show ?thesis by blast
qed

lemma parse_fixed_point2: "parse_unsigned2 (fixed_point2 n) = Some (of_nat n / 100)"
proof -
  define m' where "m' = (if length (nat_digits n) \<le> 2
      then replicate (3 - length (nat_digits n)) (CHR ''0'') @ nat_digits n else nat_digits n)"
  have m': "3 \<le> length m'" "list_all is_digit m'" "digits_value m' = n"
    using padded_digits [of n] by (simp_all add: m'_def)
  define k where "k = length m'"
  have fp: "fixed_point2 n = take (k - 2) m' @ ''.'' @ drop (k - 2) m'"
    by (simp add: fixed_point2_def m'_def k_def Let_def)
  have len: "length (fixed_point2 n) = k + 1" using m' by (simp add: fp k_def)
  have dot: "fixed_point2 n ! (k + 1 - 3) = CHR ''.''"
    using m' by (simp add: fp k_def nth_append)
  have tk: "take (k + 1 - 3) (fixed_point2 n) = take (k - 2) m'"
    using m' by (simp add: fp k_def)
  have dr: "drop (k + 1 - 2) (fixed_point2 n) = drop (k - 2) m'"
    using m' by (simp add: fp k_def)
  have dg: "list_all is_digit (take (k - 2) m') \<and> list_all is_digit (drop (k - 2) m')"
    using m'(2) by (auto simp: list_all_iff dest: in_set_takeD in_set_dropD)
  have "4 \<le> k + 1" using m' by (simp add: k_def)
  then show ?thesis
    using len dot tk dr dg m'(3) by (simp add: parse_unsigned2_def Let_def)
qed

lemma hd_fixed_point2: "fixed_point2 n \<noteq> [] \<and> hd (fixed_point2 n) \<noteq> CHR ''-''"
proof -
  obtain m' where "3 \<le> length m'" "list_all is_digit m'"
    and fp: "fixed_point2 n = take (length m' - 2) m' @ ''.'' @ drop (length m' - 2) m'"
    using padded_digits [of n] by (auto simp: fixed_point2_def Let_def)
  then have "is_digit (hd (fixed_point2 n))"
    by (cases m') (auto simp: fp list_all_iff)
  then show ?thesis by (auto simp: fp is_digit_def)
qed

lemma round_cents_close: "0 \<le> x \<Longrightarrow> \<bar>of_nat (round_cents x) / 100 - x\<bar> \<le> 1 / 200"
proof -
  assume x: "0 \<le> x"
  let ?r = "\<lfloor>x * 100 + 1 / 2\<rfloor>"
  have lo: "of_int ?r \<le> x * 100 + 1 / 2" by (rule of_int_floor_le)
  have hi: "x * 100 + 1 / 2 < of_int ?r + 1" by (rule floor_correct [THEN conjunct2, simplified])
  have "0 \<le> ?r" using x by simp
  then have eq: "(of_nat (round_cents x) :: rat) = of_int ?r" by (simp add: round_cents_def)
  have a: "(of_int ?r :: rat) / 100 - x \<le> 1 / 200" using lo by (simp add: field_simps)
  have b: "- (1 / 200) \<le> (of_int ?r :: rat) / 100 - x" using hi by (simp add: field_simps)
  from a b show ?thesis by (simp only: eq abs_le_iff) simp
qed

lemma to_fixed2_fixed:
  "\<bar>x\<bar> < 10 ^ 21 \<Longrightarrow>
   to_fixed2 num_str x = (if x < 0 then CHR ''-'' # fixed_point2 (round_cents (- x)) else fixed_point2 (round_cents x))"
  by (simp add: to_fixed2_def Let_def)

lemma cents_value_close: "\<bar>cents_value x - x\<bar> \<le> 1 / 200"
proof (cases "x < 0")
  case True
  have "\<bar>of_nat (round_cents (- x)) / 100 - (- x)\<bar> \<le> 1 / 200"
    using True by (intro round_cents_close) simp
  with True show ?thesis unfolding cents_value_def abs_le_iff by simp
next
  case False
  then have "0 \<le> x" by simp
  from round_cents_close [OF this] False show ?thesis by (simp only: cents_value_def if_False)
qed

lemma parse_to_fixed2:
  assumes "\<bar>x\<bar> < 10 ^ 21"
  shows "parse_fixed2 (to_fixed2 num_str x) = Some (cents_value x)"
proof (cases "x < 0")
  case True
  then show ?thesis
    by (simp add: to_fixed2_fixed [OF assms] parse_fixed2_def cents_value_def parse_fixed_point2)
next
  case False
  then show ?thesis
    using hd_fixed_point2 [of "round_cents x"]
    by (simp add: to_fixed2_fixed [OF assms] parse_fixed2_def cents_value_def parse_fixed_point2)
qed

section \<open>Properties of the amount column\<close>

text \<open>C27: Below \<open>10^21\<close>, the amount text reads back: it is an optional minus sign, at
  least one digit, a point and exactly two digits, and it denotes the amount rounded to the
  nearest cent (ties away from zero).\<close>

theorem to_fixed2_roundtrip:
  assumes "\<bar>x\<bar> < 10 ^ 21"
  shows "parse_fixed2 (to_fixed2 num_str x) = Some (cents_value x)"
  by (rule parse_to_fixed2 [OF assms])

theorem to_fixed2_roundtrip_witness:
  "\<bar>- 201 / 2 :: rat\<bar> < 10 ^ 21 \<and> to_fixed2 (\<lambda>_. []) (- 201 / 2) = ''-100.50'' \<and>
   parse_fixed2 (to_fixed2 (\<lambda>_. []) (- 201 / 2)) = Some (cents_value (- 201 / 2))"
proof -
  have a: "\<bar>- 201 / 2 :: rat\<bar> < 10 ^ 21" by simp
  from to_fixed2_roundtrip [OF a, of "\<lambda>_. []"] a show ?thesis by (simp add: eval_simps)
qed

text \<open>C28: Below \<open>10^21\<close>, the amount text denotes a value within half a cent of the
  stored amount.\<close>

theorem to_fixed2_error_bound:
  assumes "\<bar>x\<bar> < 10 ^ 21"
  shows "\<exists>v. parse_fixed2 (to_fixed2 num_str x) = Some v \<and> \<bar>v - x\<bar> \<le> 1 / 200"
  using parse_to_fixed2 [OF assms] cents_value_close [of x] by blast

theorem to_fixed2_error_bound_witness:
  "\<bar>2 / 3 :: rat\<bar> < 10 ^ 21 \<and> to_fixed2 (\<lambda>_. []) (2 / 3) = ''0.67'' \<and>
   (\<exists>v. parse_fixed2 (to_fixed2 (\<lambda>_. []) (2 / 3)) = Some v \<and> \<bar>v - 2 / 3\<bar> \<le> 1 / 200)"
proof -
  have a: "\<bar>2 / 3 :: rat\<bar> < 10 ^ 21" by simp
  from to_fixed2_error_bound [OF a, of "\<lambda>_. []"] a show ?thesis by (simp add: eval_simps)
qed

end
