(* ===== verification/Sequential.thy ===== *)
theory Sequential
  imports Environment
begin

text \<open>
  The page used one input at a time against a store that answers at once: after each input
  the outstanding requests are answered, oldest first, until none is left. \<open>drain\<close>
  does that. It terminates because each answer replaces its request by requests of
  smaller total weight (connect is followed by the areas request, index creation by the
  query). \<open>seq_reachable\<close> holds for the states the page reaches this way, and
  \<open>seq_run\<close> computes such a session. In them the page keeps the selection invariant
  of the specification (\<open>seq_inv\<close>), which the unguarded interleavings of
  \<open>Spec2Isabelle\<close> break, and lists the selected person's debit records
  (\<open>records_inv\<close>). Both invariants are proved through \<open>seq_reachable_invariant\<close>:
  preserved by any answer, and by any input made with nothing outstanding.
\<close>

fun request_weight :: "request \<Rightarrow> nat" where
  "request_weight RqConnect = 2"
| "request_weight (RqIndex _) = 2"
| "request_weight _ = 1"

definition pending_weight :: "world \<Rightarrow> nat" where
  "pending_weight w = sum_list (map request_weight (pending (w_sys w)))"

lemma settle_weight:
  "settle rq r s = Some (s', rs) \<Longrightarrow> sum_list (map request_weight rs) < request_weight rq"
  by (erule settle.elims) (auto simp: handler_simps split: option.splits)

lemma world_step_answerE:
  assumes "world_step w (Answer i) = Some w'"
  obtains s' rs where "i < length (pending (w_sys w))"
    and "settle (pending (w_sys w) ! i) (Fulfilled (store_answer (w_store w) (pending (w_sys w) ! i)))
           (scr (w_sys w)) = Some (s', rs)"
    and "scr (w_sys w') = s'" and "pending (w_sys w') = remove_nth i (pending (w_sys w)) @ rs"
    and "w_store w' = store_effect (pending (w_sys w) ! i) (w_store w)"
  using assms by (auto split: if_splits option.splits prod.splits)

lemma answer_weight:
  assumes ws: "world_step w (Answer i) = Some w'"
  shows "pending_weight w' < pending_weight w"
proof -
  let ?p = "pending (w_sys w)"
  from ws obtain s' rs where i: "i < length ?p"
    and se: "settle (?p ! i) (Fulfilled (store_answer (w_store w) (?p ! i))) (scr (w_sys w)) = Some (s', rs)"
    and p': "pending (w_sys w') = remove_nth i ?p @ rs"
    by (rule world_step_answerE)
  from se have "sum_list (map request_weight rs) < request_weight (?p ! i)" by (rule settle_weight)
  with remove_nth_sum [OF i, of request_weight] p' show ?thesis
    by (simp add: pending_weight_def)
qed

function drain :: "world \<Rightarrow> world option" where
  "drain w =
     (if pending (w_sys w) = [] then Some w
      else case world_step w (Answer 0) of None \<Rightarrow> None | Some w' \<Rightarrow> drain w')"
  by pat_completeness auto
termination
  by (relation "measure pending_weight") (auto simp del: world_step.simps dest: answer_weight)

declare drain.simps [simp del]

inductive seq_reachable :: "store \<Rightarrow> world \<Rightarrow> bool" for st0 :: store where
  start: "drain (init_world st0) = Some w \<Longrightarrow> seq_reachable st0 w"
| input: "seq_reachable st0 w \<Longrightarrow> is_user_event e \<Longrightarrow> world_step w (User e) = Some w1 \<Longrightarrow>
          drain w1 = Some w2 \<Longrightarrow> seq_reachable st0 w2"

text \<open>A user session in this discipline: each input followed by draining.\<close>

fun seq_run :: "world \<Rightarrow> event list \<Rightarrow> world option" where
  "seq_run w [] = Some w"
| "seq_run w (e # es) =
     (if is_user_event e then
        (case world_step w (User e) of
           None \<Rightarrow> None
         | Some w1 \<Rightarrow> (case drain w1 of None \<Rightarrow> None | Some w2 \<Rightarrow> seq_run w2 es))
      else None)"

text \<open>The requests whose answer replaces a person list of the page.\<close>

fun fetches_persons :: "request \<Rightarrow> bool" where
  "fetches_persons (RqPersons _) = True"
| "fetches_persons (RqSearch _) = True"
| "fetches_persons _ = False"

text \<open>The selection invariant of sequential use. Once an area is selected, either its
  persons are still being fetched (and nothing downstream is selected), or the page holds
  the area's persons, suggests only some of them, has selected one of them if any, and no
  person list is being fetched.\<close>

definition seq_inv :: "store \<Rightarrow> world \<Rightarrow> bool" where
  "seq_inv st0 w \<longleftrightarrow>
     st_persons (w_store w) = st_persons st0 \<and>
     (selectedArea (scr (w_sys w)) \<noteq> [] \<longrightarrow>
        (pending (w_sys w) = [RqPersons (selectedArea (scr (w_sys w)))] \<and>
         connectionSuggestions (scr (w_sys w)) = [] \<and> selectedPersonId (scr (w_sys w)) = []) \<or>
        (personsInArea (scr (w_sys w)) = get_persons_by_area st0 (selectedArea (scr (w_sys w))) \<and>
         set (connectionSuggestions (scr (w_sys w))) \<subseteq> set (personsInArea (scr (w_sys w))) \<and>
         (selectedPersonId (scr (w_sys w)) \<noteq> [] \<longrightarrow>
            (\<exists>p\<in>set (personsInArea (scr (w_sys w))). p_id p = selectedPersonId (scr (w_sys w)))) \<and>
         list_all (\<lambda>rq. \<not> fetches_persons rq) (pending (w_sys w))))"

text \<open>The requests that load the records of the selected person.\<close>

fun loads_records :: "request \<Rightarrow> bool" where
  "loads_records (RqIndex _) = True"
| "loads_records (RqFind _) = True"
| "loads_records _ = False"

text \<open>The records invariant of sequential use. Once a person is selected, either its
  records are being loaded (index creation, then the query), or the page lists the
  store's debit documents of that person and no record request is outstanding.\<close>

definition records_inv :: "store \<Rightarrow> world \<Rightarrow> bool" where
  "records_inv st0 w \<longleftrightarrow>
     st_docs (w_store w) = st_docs st0 \<and>
     (selectedPersonId (scr (w_sys w)) \<noteq> [] \<longrightarrow>
        pending (w_sys w) = [RqIndex (selectedPersonId (scr (w_sys w)))] \<or>
        pending (w_sys w) = [RqFind (selectedPersonId (scr (w_sys w)))] \<or>
        (records (scr (w_sys w)) = find_docs st0 (selectedPersonId (scr (w_sys w))) \<and>
         list_all (\<lambda>rq. \<not> loads_records rq) (pending (w_sys w))))"

section \<open>Draining\<close>

text \<open>The store's answer always fits the request it answers.\<close>

lemma settle_store_answer: "\<exists>r. settle rq (Fulfilled (store_answer st rq)) s = Some r"
  by (cases rq) (simp_all add: store_answer_def)

lemma answer_first_defined:
  "pending (w_sys w) \<noteq> [] \<Longrightarrow> \<exists>w'. world_step w (Answer 0) = Some w'"
  using settle_store_answer [of "pending (w_sys w) ! 0" "w_store w" "scr (w_sys w)"]
  by (auto split: option.splits)

lemma drain_Nil: "pending (w_sys w) = [] \<Longrightarrow> drain w = Some w"
  by (simp add: drain.simps)

lemma drain_step:
  "pending (w_sys w) \<noteq> [] \<Longrightarrow> world_step w (Answer 0) = Some w' \<Longrightarrow> drain w = drain w'"
  by (simp add: drain.simps [of w] del: world_step.simps)

lemma drain_invariant:
  assumes pres: "\<And>w w'. P w \<Longrightarrow> world_step w (Answer 0) = Some w' \<Longrightarrow> P w'"
  shows "P w \<Longrightarrow> drain w = Some w' \<Longrightarrow> P w' \<and> pending (w_sys w') = []"
proof (induction w rule: drain.induct)
  case (1 w)
  show ?case
  proof (cases "pending (w_sys w) = []")
    case True
    with "1.prems" show ?thesis by (simp add: drain_Nil)
  next
    case False
    then obtain w1 where ws: "world_step w (Answer 0) = Some w1"
      using answer_first_defined by blast
    with False "1.prems"(2) have "drain w1 = Some w'" by (simp add: drain_step)
    moreover have "P w1" using "1.prems"(1) ws by (rule pres)
    ultimately show ?thesis using "1.IH" [OF False ws] by blast
  qed
qed

lemma drain_defined: "drain w \<noteq> None"
proof (induction w rule: drain.induct)
  case (1 w)
  show ?case
  proof (cases "pending (w_sys w) = []")
    case True
    then show ?thesis by (simp add: drain_Nil)
  next
    case False
    then obtain w1 where ws: "world_step w (Answer 0) = Some w1"
      using answer_first_defined by blast
    with False "1.IH" [OF False ws] show ?thesis by (simp add: drain_step)
  qed
qed

lemma drain_world_reachable:
  "world_reachable st0 w \<Longrightarrow> drain w = Some w' \<Longrightarrow> world_reachable st0 w'"
  using drain_invariant [of "world_reachable st0"] world_reachable.step by blast

lemma seq_world_reachable: "seq_reachable st0 w \<Longrightarrow> world_reachable st0 w"
proof (induction rule: seq_reachable.induct)
  case (start w)
  then show ?case by (blast intro: drain_world_reachable world_reachable.init)
next
  case (input w e w1 w2)
  then show ?case by (blast intro: drain_world_reachable world_reachable.step)
qed

lemma seq_run_reachable:
  "seq_reachable st0 w \<Longrightarrow> seq_run w es = Some w' \<Longrightarrow> seq_reachable st0 w'"
proof (induction es arbitrary: w)
  case Nil
  then show ?case by simp
next
  case (Cons e es)
  then obtain w1 w2 where "is_user_event e" and "world_step w (User e) = Some w1"
    and "drain w1 = Some w2" and "seq_run w2 es = Some w'"
    by (auto split: if_splits option.splits simp del: world_step.simps)
  with Cons show ?case by (blast intro: seq_reachable.input)
qed

section \<open>The selection invariant\<close>

lemma st_persons_store_effect [simp]: "st_persons (store_effect rq st) = st_persons st"
  by (simp add: store_effect_def split: request.splits)

lemma settle_selection:
  "settle rq r s = Some (s', rs) \<Longrightarrow>
   selectedArea s' = selectedArea s \<and> selectedPersonId s' = selectedPersonId s"
  by (erule settle.elims) (auto simp: handler_simps split: outcome.splits option.splits)

lemma settle_selection_frame:
  "settle rq r s = Some (s', rs) \<Longrightarrow> \<not> fetches_persons rq \<Longrightarrow>
   personsInArea s' = personsInArea s \<and> connectionSuggestions s' = connectionSuggestions s \<and>
   selectedPersonId s' = selectedPersonId s \<and> list_all (\<lambda>q. \<not> fetches_persons q) rs"
  by (erule settle.elims) (auto simp: handler_simps split: outcome.splits option.splits)

lemma answer_seq_inv:
  assumes inv: "seq_inv st0 w" and ws: "world_step w (Answer i) = Some w'"
  shows "seq_inv st0 w'"
proof -
  let ?p = "pending (w_sys w)" and ?s = "scr (w_sys w)"
  from ws obtain s' rs where i: "i < length ?p"
    and se: "settle (?p ! i) (Fulfilled (store_answer (w_store w) (?p ! i))) ?s = Some (s', rs)"
    and s': "scr (w_sys w') = s'" and p': "pending (w_sys w') = remove_nth i ?p @ rs"
    and st': "w_store w' = store_effect (?p ! i) (w_store w)"
    by (rule world_step_answerE)
  have persons0: "st_persons (w_store w) = st_persons st0" using inv by (simp add: seq_inv_def)
  then have persons: "st_persons (w_store w') = st_persons st0" using st' by simp
  have sa: "selectedArea s' = selectedArea ?s" using settle_selection [OF se] by simp
  show ?thesis
  proof (cases "selectedArea ?s = []")
    case True
    with persons sa s' show ?thesis by (simp add: seq_inv_def)
  next
    case False
    with inv consider
      (fetching) "?p = [RqPersons (selectedArea ?s)]" "connectionSuggestions ?s = []"
        "selectedPersonId ?s = []"
    | (loaded) "personsInArea ?s = get_persons_by_area st0 (selectedArea ?s)"
        "set (connectionSuggestions ?s) \<subseteq> set (personsInArea ?s)"
        "selectedPersonId ?s \<noteq> [] \<longrightarrow> (\<exists>p\<in>set (personsInArea ?s). p_id p = selectedPersonId ?s)"
        "list_all (\<lambda>rq. \<not> fetches_persons rq) ?p"
      unfolding seq_inv_def by blast
    then show ?thesis
    proof cases
      case fetching
      with i have i0: "i = 0" by simp
      have gpa: "get_persons_by_area (w_store w) = get_persons_by_area st0"
        using persons0 by (simp add: get_persons_by_area_def fun_eq_iff)
      from se fetching i0 gpa
      have "s' = ?s\<lparr>personsInArea := get_persons_by_area st0 (selectedArea ?s)\<rparr>" and "rs = []"
        by (simp_all add: store_answer_def handler_simps list_or_empty_def)
      with fetching i0 s' p' persons False show ?thesis
        by (simp add: seq_inv_def remove_nth_def)
    next
      case loaded
      then have "\<not> fetches_persons (?p ! i)" using i by (simp add: list_all_length)
      from settle_selection_frame [OF se this]
      have fr: "personsInArea s' = personsInArea ?s" "connectionSuggestions s' = connectionSuggestions ?s"
        "selectedPersonId s' = selectedPersonId ?s" "list_all (\<lambda>q. \<not> fetches_persons q) rs"
        by simp_all
      have "list_all (\<lambda>q. \<not> fetches_persons q) (remove_nth i ?p)"
        using loaded(4) set_remove_nth_subset [of i ?p] by (auto simp: list_all_iff)
      with loaded fr sa s' p' persons show ?thesis by (simp add: seq_inv_def)
    qed
  qed
qed

lemma world_step_userE:
  assumes ws: "world_step w (User e) = Some w'" and si: "screen_inv (w_sys w)"
  obtains "is_user_event e" and "step (w_sys w) e = Some (w_sys w')" and "w_store w' = w_store w"
    and "\<not> loading (scr (w_sys w))" and "db (scr (w_sys w)) \<noteq> None"
proof
  from ws show ue: "is_user_event e" and st: "step (w_sys w) e = Some (w_sys w')"
    and "w_store w' = w_store w"
    by (auto split: if_splits simp del: step.simps)
  from st ue show nl: "\<not> loading (scr (w_sys w))" by (cases e) (auto split: if_splits)
  with si show "db (scr (w_sys w)) \<noteq> None" by (simp add: screen_inv_def)
qed

lemma user_seq_inv:
  assumes inv: "seq_inv st0 w" and np: "pending (w_sys w) = []" and si: "screen_inv (w_sys w)"
    and ws: "world_step w (User e) = Some w'"
  shows "seq_inv st0 w'"
proof -
  let ?s = "scr (w_sys w)"
  from ws si obtain ue: "is_user_event e" and st: "step (w_sys w) e = Some (w_sys w')"
    and store: "w_store w' = w_store w" and db: "db ?s \<noteq> None"
    by (rule world_step_userE)
  from inv np have sel: "selectedArea ?s \<noteq> [] \<longrightarrow>
      personsInArea ?s = get_persons_by_area st0 (selectedArea ?s) \<and>
      set (connectionSuggestions ?s) \<subseteq> set (personsInArea ?s) \<and>
      (selectedPersonId ?s \<noteq> [] \<longrightarrow> (\<exists>p\<in>set (personsInArea ?s). p_id p = selectedPersonId ?s))"
    unfolding seq_inv_def by auto
  have persons: "st_persons (w_store w') = st_persons st0" using inv store by (simp add: seq_inv_def)
  show ?thesis
  proof (cases e)
    case (AreaInput q)
    with st have "w_sys w' = w_sys w\<lparr>scr := area_on_change q ?s\<rparr>" by (simp split: if_splits)
    with sel persons np show ?thesis by (auto simp: seq_inv_def handler_simps)
  next
    case (AreaClick a)
    with st have "w_sys w' = issue (w_sys w) (area_pick a ?s)" by (simp split: if_splits)
    with db persons np show ?thesis by (auto simp: seq_inv_def handler_simps Let_def split: if_splits)
  next
    case (ConnInput q)
    with st have "w_sys w' = issue (w_sys w) (conn_on_change q ?s)" by (simp split: if_splits)
    with sel persons np person_filter_subset [of "personsInArea ?s" q] show ?thesis
      by (auto simp: seq_inv_def handler_simps Let_def split: option.splits)
  next
    case (PersonClick p)
    with st have p: "p \<in> set (connectionSuggestions ?s)"
      and "w_sys w' = issue (w_sys w) (on_person_select (p_id p) ?s)" by (simp_all split: if_splits)
    moreover have "selectedArea ?s \<noteq> [] \<Longrightarrow> p \<in> set (personsInArea ?s)" using sel p by blast
    ultimately show ?thesis using sel persons np by (auto simp: seq_inv_def handler_simps Let_def)
  next
    case (Settle i r)
    with ue show ?thesis by simp
  qed
qed

section \<open>The records invariant\<close>

lemma st_docs_store_effect [simp]: "st_docs (store_effect rq st) = st_docs st"
  by (simp add: store_effect_def split: request.splits)

lemma settle_records_frame:
  "settle rq r s = Some (s', rs) \<Longrightarrow> \<not> loads_records rq \<Longrightarrow>
   records s' = records s \<and> list_all (\<lambda>q. \<not> loads_records q) rs"
  by (erule settle.elims) (auto simp: handler_simps split: outcome.splits option.splits)

lemma answer_records_inv:
  assumes inv: "records_inv st0 w" and ws: "world_step w (Answer i) = Some w'"
  shows "records_inv st0 w'"
proof -
  let ?p = "pending (w_sys w)" and ?s = "scr (w_sys w)"
  from ws obtain s' rs where i: "i < length ?p"
    and se: "settle (?p ! i) (Fulfilled (store_answer (w_store w) (?p ! i))) ?s = Some (s', rs)"
    and s': "scr (w_sys w') = s'" and p': "pending (w_sys w') = remove_nth i ?p @ rs"
    and st': "w_store w' = store_effect (?p ! i) (w_store w)"
    by (rule world_step_answerE)
  have docs0: "st_docs (w_store w) = st_docs st0" using inv by (simp add: records_inv_def)
  then have docs: "st_docs (w_store w') = st_docs st0" using st' by simp
  have sp: "selectedPersonId s' = selectedPersonId ?s" using settle_selection [OF se] by simp
  show ?thesis
  proof (cases "selectedPersonId ?s = []")
    case True
    with docs sp s' show ?thesis by (simp add: records_inv_def)
  next
    case False
    with inv consider
      (index) "?p = [RqIndex (selectedPersonId ?s)]"
    | (query) "?p = [RqFind (selectedPersonId ?s)]"
    | (shown) "records ?s = find_docs st0 (selectedPersonId ?s)"
        "list_all (\<lambda>rq. \<not> loads_records rq) ?p"
      unfolding records_inv_def by blast
    then show ?thesis
    proof cases
      case index
      with i se have "s' = ?s \<and> rs = [RqFind (selectedPersonId ?s)] \<and> i = 0"
        by (auto simp: store_answer_def handler_simps)
      with index s' p' docs show ?thesis by (auto simp: records_inv_def remove_nth_def)
    next
      case query
      have fd: "find_docs (w_store w) = find_docs st0"
        using docs0 by (simp add: find_docs_def fun_eq_iff)
      from query i se fd
      have "s' = ?s\<lparr>records := find_docs st0 (selectedPersonId ?s)\<rparr>" and "rs = []" and "i = 0"
        by (simp_all add: store_answer_def handler_simps list_or_empty_def)
      with query s' p' docs False show ?thesis by (simp add: records_inv_def remove_nth_def)
    next
      case shown
      then have "\<not> loads_records (?p ! i)" using i by (simp add: list_all_length)
      from settle_records_frame [OF se this]
      have fr: "records s' = records ?s" "list_all (\<lambda>q. \<not> loads_records q) rs" by simp_all
      have "list_all (\<lambda>q. \<not> loads_records q) (remove_nth i ?p)"
        using shown(2) set_remove_nth_subset [of i ?p] by (auto simp: list_all_iff)
      with shown fr sp s' p' docs show ?thesis by (simp add: records_inv_def)
    qed
  qed
qed

lemma user_records_inv:
  assumes inv: "records_inv st0 w" and np: "pending (w_sys w) = []" and si: "screen_inv (w_sys w)"
    and ws: "world_step w (User e) = Some w'"
  shows "records_inv st0 w'"
proof -
  let ?s = "scr (w_sys w)"
  from ws si obtain ue: "is_user_event e" and st: "step (w_sys w) e = Some (w_sys w')"
    and store: "w_store w' = w_store w" and db: "db ?s \<noteq> None"
    by (rule world_step_userE)
  from inv np have shown: "selectedPersonId ?s \<noteq> [] \<longrightarrow>
      records ?s = find_docs st0 (selectedPersonId ?s)"
    unfolding records_inv_def by auto
  have docs: "st_docs (w_store w') = st_docs st0" using inv store by (simp add: records_inv_def)
  show ?thesis
  proof (cases e)
    case (AreaInput q)
    with st have "w_sys w' = w_sys w\<lparr>scr := area_on_change q ?s\<rparr>" by (simp split: if_splits)
    with shown docs np show ?thesis by (auto simp: records_inv_def handler_simps)
  next
    case (AreaClick a)
    with st have "w_sys w' = issue (w_sys w) (area_pick a ?s)" by (simp split: if_splits)
    with docs show ?thesis by (simp add: records_inv_def handler_simps Let_def)
  next
    case (ConnInput q)
    with st have "w_sys w' = issue (w_sys w) (conn_on_change q ?s)" by (simp split: if_splits)
    with shown docs np show ?thesis
      by (auto simp: records_inv_def handler_simps Let_def split: option.splits)
  next
    case (PersonClick p)
    with st have "w_sys w' = issue (w_sys w) (on_person_select (p_id p) ?s)" by (simp split: if_splits)
    with db docs np show ?thesis by (auto simp: records_inv_def handler_simps Let_def)
  next
    case (Settle i r)
    with ue show ?thesis by simp
  qed
qed

lemma seq_reachable_invariant:
  assumes r: "seq_reachable st0 w"
    and init: "P (init_world st0)"
    and answer: "\<And>w w' i. P w \<Longrightarrow> world_step w (Answer i) = Some w' \<Longrightarrow> P w'"
    and user: "\<And>w w' e. P w \<Longrightarrow> pending (w_sys w) = [] \<Longrightarrow> screen_inv (w_sys w) \<Longrightarrow>
                 world_step w (User e) = Some w' \<Longrightarrow> P w'"
  shows "P w \<and> pending (w_sys w) = []"
  using r
proof (induction rule: seq_reachable.induct)
  case (start w)
  have ans0: "\<And>w w'. P w \<Longrightarrow> world_step w (Answer 0) = Some w' \<Longrightarrow> P w'" by (rule answer)
  from drain_invariant [of P, OF ans0 init start] show ?case .
next
  case (input w e w1 w2)
  have ans0: "\<And>w w'. P w \<Longrightarrow> world_step w (Answer 0) = Some w' \<Longrightarrow> P w'" by (rule answer)
  have "screen_inv (w_sys w)"
    using input.hyps(1) by (blast dest: seq_world_reachable world_reachable_reachable reachable_inv)
  with input.IH input.hyps(3) have "P w1" by (blast intro: user)
  from drain_invariant [of P, OF ans0 this input.hyps(4)] show ?case .
qed

lemma seq_reachable_inv:
  assumes "seq_reachable st0 w"
  shows "seq_inv st0 w \<and> pending (w_sys w) = []"
  using assms
proof (rule seq_reachable_invariant [where P = "seq_inv st0"])
  show "seq_inv st0 (init_world st0)"
    by (simp add: seq_inv_def init_world_def init_sys_def init_screen_def)
qed (blast intro: answer_seq_inv user_seq_inv)+

lemma seq_reachable_records_inv:
  assumes "seq_reachable st0 w"
  shows "records_inv st0 w \<and> pending (w_sys w) = []"
  using assms
proof (rule seq_reachable_invariant [where P = "records_inv st0"])
  show "records_inv st0 (init_world st0)"
    by (simp add: records_inv_def init_world_def init_sys_def init_screen_def)
qed (blast intro: answer_records_inv user_records_inv)+

section \<open>Properties\<close>

text \<open>C20: Answering the outstanding requests one after another always ends, with no
  request left: every request the page issues is eventually settled, and the page
  issues only finitely many follow-up requests.\<close>

theorem drain_total: "\<exists>w'. drain w = Some w' \<and> pending (w_sys w') = []"
proof -
  obtain w' where d: "drain w = Some w'" using drain_defined by blast
  have "True \<and> pending (w_sys w') = []" by (rule drain_invariant [OF _ _ d]) simp_all
  with d show ?thesis by blast
qed

text \<open>C6: When the page is used one input at a time and the store answers every request
  before the next input, the selection is consistent with the selected area: the page
  holds exactly the persons of that area, suggests only persons of that area, and the
  selected person, if any, is a person of that area.\<close>

theorem sequential_selection_in_area:
  assumes r: "seq_reachable st0 w" and a: "selectedArea (scr (w_sys w)) \<noteq> []"
  shows "personsInArea (scr (w_sys w)) = get_persons_by_area st0 (selectedArea (scr (w_sys w))) \<and>
    (\<forall>p\<in>set (connectionSuggestions (scr (w_sys w))).
       p \<in> set (st_persons st0) \<and> areaId p = selectedArea (scr (w_sys w))) \<and>
    (selectedPersonId (scr (w_sys w)) \<noteq> [] \<longrightarrow>
       (\<exists>p\<in>set (st_persons st0). p_id p = selectedPersonId (scr (w_sys w)) \<and>
                               areaId p = selectedArea (scr (w_sys w))))"
proof -
  from seq_reachable_inv [OF r] a
  have "personsInArea (scr (w_sys w)) = get_persons_by_area st0 (selectedArea (scr (w_sys w))) \<and>
    set (connectionSuggestions (scr (w_sys w))) \<subseteq> set (personsInArea (scr (w_sys w))) \<and>
    (selectedPersonId (scr (w_sys w)) \<noteq> [] \<longrightarrow>
       (\<exists>p\<in>set (personsInArea (scr (w_sys w))). p_id p = selectedPersonId (scr (w_sys w))))"
    unfolding seq_inv_def by auto
  then show ?thesis by (auto simp: get_persons_by_area_def)
qed

text \<open>C5: When the page is used one input at a time and the store answers every request
  before the next input, the table lists, once a person is selected, exactly the store's
  documents of type debit whose personId is the selected id, in the store's order.\<close>

theorem sequential_records_of_selected:
  assumes r: "seq_reachable st0 w" and sel: "selectedPersonId (scr (w_sys w)) \<noteq> []"
  shows "records (scr (w_sys w)) =
    filter (\<lambda>d. r_type d = JStr ''debit'' \<and> personId d = JStr (selectedPersonId (scr (w_sys w))))
      (st_docs st0)"
proof -
  from seq_reachable_records_inv [OF r] sel
  have "records (scr (w_sys w)) = find_docs st0 (selectedPersonId (scr (w_sys w)))"
    unfolding records_inv_def by auto
  then show ?thesis by (simp add: find_docs_def debit_selector_def [abs_def])
qed

end
