(* ===== verification/Refinement.thy ===== *)
theory Refinement
  imports Sequential
begin

text \<open>
  The report as the specification describes it, abstracted from the page: which area is
  selected, which person is selected, and which records are listed. \<open>report_spec\<close> is
  one user action on that view: picking an area selects it and clears the person and the
  records; picking a person selects it and lists its debit documents; typing changes
  nothing of the view. \<open>view_of\<close> reads the view off the page, and the refinement
  theorem shows that in sequential use each input followed by draining is one
  \<open>report_spec\<close> step.
\<close>

record report_view =
  v_area :: doc_id
  v_person :: doc_id
  v_records :: "entry list"

definition screen_view :: "screen \<Rightarrow> report_view" where
  "screen_view s = \<lparr>v_area = selectedArea s, v_person = selectedPersonId s, v_records = records s\<rparr>"

definition view_of :: "world \<Rightarrow> report_view" where
  "view_of w = screen_view (scr (w_sys w))"

text \<open>A person without an id selects nothing and leaves the records, as
  \<open>loadRecordsForPerson\<close> returns early on an empty id.\<close>

fun report_spec :: "store \<Rightarrow> report_view \<Rightarrow> event \<Rightarrow> report_view" where
  "report_spec st0 v (AreaClick a) = \<lparr>v_area = a_id a, v_person = [], v_records = []\<rparr>"
| "report_spec st0 v (PersonClick p) =
     (if p_id p = [] then v\<lparr>v_person := []\<rparr>
      else v\<lparr>v_person := p_id p, v_records := find_docs st0 (p_id p)\<rparr>)"
| "report_spec st0 v _ = v"

section \<open>Draining leaves the view alone\<close>

lemma drain_keeps_selection:
  assumes "drain w = Some w'"
  shows "selectedArea (scr (w_sys w')) = selectedArea (scr (w_sys w)) \<and>
    selectedPersonId (scr (w_sys w')) = selectedPersonId (scr (w_sys w))"
proof -
  have "(\<lambda>x. selectedArea (scr (w_sys x)) = selectedArea (scr (w_sys w)) \<and>
      selectedPersonId (scr (w_sys x)) = selectedPersonId (scr (w_sys w))) w' \<and> pending (w_sys w') = []"
  proof (rule drain_invariant [OF _ _ assms])
    fix x x'
    assume "world_step x (Answer 0) = Some x'"
    then obtain s' rs where se: "settle (pending (w_sys x) ! 0)
        (Fulfilled (store_answer (w_store x) (pending (w_sys x) ! 0))) (scr (w_sys x)) = Some (s', rs)"
      and "scr (w_sys x') = s'" by (rule world_step_answerE)
    with settle_selection [OF se]
    show "selectedArea (scr (w_sys x)) = selectedArea (scr (w_sys w)) \<and>
        selectedPersonId (scr (w_sys x)) = selectedPersonId (scr (w_sys w)) \<Longrightarrow>
      selectedArea (scr (w_sys x')) = selectedArea (scr (w_sys w)) \<and>
        selectedPersonId (scr (w_sys x')) = selectedPersonId (scr (w_sys w))" by simp
  qed simp
  then show ?thesis by simp
qed

lemma drain_keeps_records:
  assumes nl: "list_all (\<lambda>rq. \<not> loads_records rq) (pending (w_sys w))" and d: "drain w = Some w'"
  shows "records (scr (w_sys w')) = records (scr (w_sys w))"
proof -
  let ?P = "\<lambda>x. records (scr (w_sys x)) = records (scr (w_sys w)) \<and>
                list_all (\<lambda>rq. \<not> loads_records rq) (pending (w_sys x))"
  have "?P w' \<and> pending (w_sys w') = []"
  proof (rule drain_invariant [OF _ _ d])
    fix x x'
    assume px: "?P x" and ws: "world_step x (Answer 0) = Some x'"
    from ws obtain s' rs where i: "0 < length (pending (w_sys x))"
      and se: "settle (pending (w_sys x) ! 0)
        (Fulfilled (store_answer (w_store x) (pending (w_sys x) ! 0))) (scr (w_sys x)) = Some (s', rs)"
      and s': "scr (w_sys x') = s'" and p': "pending (w_sys x') = remove_nth 0 (pending (w_sys x)) @ rs"
      by (rule world_step_answerE)
    from px i have "\<not> loads_records (pending (w_sys x) ! 0)" by (simp add: list_all_length)
    from settle_records_frame [OF se this]
    have "records s' = records (scr (w_sys x))" and "list_all (\<lambda>q. \<not> loads_records q) rs" by simp_all
    moreover have "list_all (\<lambda>q. \<not> loads_records q) (remove_nth 0 (pending (w_sys x)))"
      using px set_remove_nth_subset [of 0 "pending (w_sys x)"] by (auto simp: list_all_iff)
    ultimately show "?P x'" using px s' p' by simp
  qed (simp add: nl)
  then show ?thesis by simp
qed

lemma drain_view:
  "drain w = Some w' \<Longrightarrow> list_all (\<lambda>rq. \<not> loads_records rq) (pending (w_sys w)) \<Longrightarrow>
   view_of w' = view_of w"
  using drain_keeps_selection [of w w'] drain_keeps_records [of w w'] by (simp add: view_of_def screen_view_def)

section \<open>The synchronous part of an input\<close>

text \<open>An input other than picking a person with an id changes the view as the
  specification does at once, and issues no record request.\<close>

lemma user_step_view:
  assumes st: "step sy e = Some sy'" and ue: "is_user_event e"
    and np: "\<forall>p. e = PersonClick p \<longrightarrow> p_id p = []"
  shows "screen_view (scr sy') = report_spec st0 (screen_view (scr sy)) e \<and>
    (\<exists>rs. pending sy' = pending sy @ rs \<and> list_all (\<lambda>rq. \<not> loads_records rq) rs)"
proof (cases e)
  case (Settle i r)
  with ue show ?thesis by simp
qed (use st np in \<open>auto simp: screen_view_def handler_simps Let_def split: if_splits option.splits\<close>)

text \<open>Picking a person with an id selects it at once and, with a handle, issues the index
  request; the records stay until the query answers.\<close>

lemma person_step_view:
  assumes st: "step sy (PersonClick p) = Some sy'" and pid: "p_id p \<noteq> []" and db: "db (scr sy) \<noteq> None"
  shows "screen_view (scr sy') = (screen_view (scr sy))\<lparr>v_person := p_id p\<rparr> \<and>
    pending sy' = pending sy @ [RqIndex (p_id p)]"
  using st pid db by (auto simp: screen_view_def handler_simps Let_def split: if_splits)

text \<open>In sequential use, picking a person with an id selects it and lists its debit
  documents once the requests are answered.\<close>

lemma seq_person_click_view:
  assumes r: "seq_reachable st0 w" and ws: "world_step w (User (PersonClick p)) = Some w1"
    and d: "drain w1 = Some w2" and pid: "p_id p \<noteq> []"
  shows "view_of w2 = (view_of w)\<lparr>v_person := p_id p, v_records := find_docs st0 (p_id p)\<rparr>"
proof -
  have si: "screen_inv (w_sys w)"
    using r by (blast dest: seq_world_reachable world_reachable_reachable reachable_inv)
  from ws si obtain ue: "is_user_event (PersonClick p)"
    and st: "step (w_sys w) (PersonClick p) = Some (w_sys w1)" and db: "db (scr (w_sys w)) \<noteq> None"
    by (rule world_step_userE)
  from person_step_view [OF st pid db]
  have v1: "view_of w1 = (view_of w)\<lparr>v_person := p_id p\<rparr>" by (simp add: view_of_def)
  have r2: "seq_reachable st0 w2" by (rule seq_reachable.input [OF r ue ws d])
  from drain_keeps_selection [OF d] v1
  have "selectedPersonId (scr (w_sys w2)) = p_id p \<and>
      selectedArea (scr (w_sys w2)) = selectedArea (scr (w_sys w))"
    by (simp add: view_of_def screen_view_def)
  moreover from this pid seq_reachable_records_inv [OF r2]
  have "records (scr (w_sys w2)) = find_docs st0 (p_id p)"
    unfolding records_inv_def by auto
  ultimately show ?thesis by (simp add: view_of_def screen_view_def)
qed

section \<open>Refinement\<close>

text \<open>C1: In sequential use, for any store, every input the page accepts, followed by the
  store answering all requests it causes, changes the selected area, the selected person
  and the listed records exactly as one step of the abstract report specification.\<close>

theorem sequential_refines_report_spec:
  assumes r: "seq_reachable st0 w" and ws: "world_step w (User e) = Some w1"
    and d: "drain w1 = Some w2"
  shows "view_of w2 = report_spec st0 (view_of w) e"
proof -
  have si: "screen_inv (w_sys w)"
    using r by (blast dest: seq_world_reachable world_reachable_reachable reachable_inv)
  from ws si obtain ue: "is_user_event e" and st: "step (w_sys w) e = Some (w_sys w1)"
    and db: "db (scr (w_sys w)) \<noteq> None"
    by (rule world_step_userE)
  have np: "pending (w_sys w) = []" using seq_reachable_inv [OF r] by simp
  show ?thesis
  proof (cases "\<exists>p. e = PersonClick p \<and> p_id p \<noteq> []")
    case False
    then have "\<forall>p. e = PersonClick p \<longrightarrow> p_id p = []" by blast
    from user_step_view [OF st ue this, of st0] np drain_view [OF d]
    show ?thesis by (auto simp: view_of_def)
  next
    case True
    then obtain p where e: "e = PersonClick p" and pid: "p_id p \<noteq> []" by blast
    from seq_person_click_view [OF r ws [unfolded e] d pid] e pid show ?thesis by simp
  qed
qed

end
