(* ===== verification/Failures.thy ===== *)
theory Failures
  imports Refinement
begin

text \<open>
  Sequential use when requests may fail. After each input the outstanding requests are
  settled oldest first, as in \<open>Sequential\<close>, but each of them may be rejected instead of
  answered: \<open>fdrain fs\<close> rejects the \<open>n\<close>-th request it settles when the \<open>n\<close>-th flag of
  \<open>fs\<close> is set. \<open>seqf_reachable\<close> is the set of states reached this way under any
  choice of failures. The page's view then refines a relational form of the report
  specification: picking a person lists its debit documents, or, only when a request it
  causes is rejected, leaves the records as they were (spec, section 7: failures leave the affected
  state at its prior value). The selection invariant, in contrast, does not survive a
  failed person fetch.
\<close>

fun next_answer :: "bool list \<Rightarrow> env_event" where
  "next_answer (True # _) = Fail 0"
| "next_answer _ = Answer 0"

lemma world_step_failE:
  assumes "world_step w (Fail i) = Some w'"
  obtains s' rs where "i < length (pending (w_sys w))"
    and "settle (pending (w_sys w) ! i) Rejected (scr (w_sys w)) = Some (s', rs)"
    and "scr (w_sys w') = s'" and "pending (w_sys w') = remove_nth i (pending (w_sys w)) @ rs"
    and "w_store w' = w_store w"
  using assms by (auto split: if_splits option.splits prod.splits)

lemma next_answerE:
  assumes "world_step w (next_answer fs) = Some w'"
  obtains r s' rs where "0 < length (pending (w_sys w))"
    and "r = Rejected \<or> r = Fulfilled (store_answer (w_store w) (pending (w_sys w) ! 0))"
    and "settle (pending (w_sys w) ! 0) r (scr (w_sys w)) = Some (s', rs)"
    and "scr (w_sys w') = s'" and "pending (w_sys w') = remove_nth 0 (pending (w_sys w)) @ rs"
proof (cases "next_answer fs = Fail 0")
  case True
  with assms have "world_step w (Fail 0) = Some w'" by simp
  then obtain s' rs where "0 < length (pending (w_sys w))"
    and "settle (pending (w_sys w) ! 0) Rejected (scr (w_sys w)) = Some (s', rs)"
    and "scr (w_sys w') = s'" and "pending (w_sys w') = remove_nth 0 (pending (w_sys w)) @ rs"
    by (rule world_step_failE)
  then show ?thesis by (intro that) simp_all
next
  case False
  then have "next_answer fs = Answer 0" by (cases fs rule: next_answer.cases) simp_all
  with assms have "world_step w (Answer 0) = Some w'" by simp
  then obtain s' rs where "0 < length (pending (w_sys w))"
    and "settle (pending (w_sys w) ! 0) (Fulfilled (store_answer (w_store w) (pending (w_sys w) ! 0)))
           (scr (w_sys w)) = Some (s', rs)"
    and "scr (w_sys w') = s'" and "pending (w_sys w') = remove_nth 0 (pending (w_sys w)) @ rs"
    by (rule world_step_answerE)
  then show ?thesis by (intro that) simp_all
qed

lemma next_answer_weight:
  assumes ws: "world_step w (next_answer fs) = Some w'"
  shows "pending_weight w' < pending_weight w"
proof -
  from ws obtain r s' rs where i: "0 < length (pending (w_sys w))"
    and se: "settle (pending (w_sys w) ! 0) r (scr (w_sys w)) = Some (s', rs)"
    and p': "pending (w_sys w') = remove_nth 0 (pending (w_sys w)) @ rs"
    by (rule next_answerE)
  from se have "sum_list (map request_weight rs) < request_weight (pending (w_sys w) ! 0)"
    by (rule settle_weight)
  with remove_nth_sum [OF i, of request_weight] p' show ?thesis
    by (simp add: pending_weight_def)
qed

function fdrain :: "bool list \<Rightarrow> world \<Rightarrow> world option" where
  "fdrain fs w =
     (if pending (w_sys w) = [] then Some w
      else case world_step w (next_answer fs) of None \<Rightarrow> None | Some w' \<Rightarrow> fdrain (tl fs) w')"
  by pat_completeness auto
termination
  by (relation "measure (\<lambda>(fs, w). pending_weight w)")
     (auto simp del: world_step.simps next_answer.simps dest: next_answer_weight)

declare fdrain.simps [simp del]

inductive seqf_reachable :: "store \<Rightarrow> world \<Rightarrow> bool" for st0 :: store where
  start: "fdrain fs (init_world st0) = Some w \<Longrightarrow> seqf_reachable st0 w"
| input: "seqf_reachable st0 w \<Longrightarrow> is_user_event e \<Longrightarrow> world_step w (User e) = Some w1 \<Longrightarrow>
          fdrain fs w1 = Some w2 \<Longrightarrow> seqf_reachable st0 w2"

text \<open>A session in this discipline: each input with the failure flags of its draining.\<close>

fun seqf_run :: "world \<Rightarrow> (event \<times> bool list) list \<Rightarrow> world option" where
  "seqf_run w [] = Some w"
| "seqf_run w ((e, fs) # es) =
     (if is_user_event e then
        (case world_step w (User e) of
           None \<Rightarrow> None
         | Some w1 \<Rightarrow> (case fdrain fs w1 of None \<Rightarrow> None | Some w2 \<Rightarrow> seqf_run w2 es))
      else None)"

text \<open>The relational report specification: as \<open>report_spec\<close>, except that picking a
  person may leave the records unchanged when some request was rejected (\<open>failed\<close>).\<close>

fun report_rel :: "store \<Rightarrow> bool \<Rightarrow> report_view \<Rightarrow> event \<Rightarrow> report_view \<Rightarrow> bool" where
  "report_rel st0 failed v (PersonClick p) v' =
     (if p_id p = [] then v' = v\<lparr>v_person := []\<rparr>
      else v' = v\<lparr>v_person := p_id p, v_records := find_docs st0 (p_id p)\<rparr> \<or>
           (failed \<and> v' = v\<lparr>v_person := p_id p\<rparr>))"
| "report_rel st0 failed v e v' = (v' = report_spec st0 v e)"

section \<open>Draining with failures\<close>

lemma fdrain_Nil: "pending (w_sys w) = [] \<Longrightarrow> fdrain fs w = Some w"
  by (simp add: fdrain.simps)

lemma fdrain_step:
  "pending (w_sys w) \<noteq> [] \<Longrightarrow> fdrain fs w = Some w' \<Longrightarrow>
   \<exists>w1. world_step w (next_answer fs) = Some w1 \<and> fdrain (tl fs) w1 = Some w'"
  by (simp add: fdrain.simps [of fs w] del: world_step.simps next_answer.simps split: option.splits)

lemma fdrain_invariant:
  assumes pres: "\<And>w w' fs. P w \<Longrightarrow> world_step w (next_answer fs) = Some w' \<Longrightarrow> P w'"
  shows "P w \<Longrightarrow> fdrain fs w = Some w' \<Longrightarrow> P w' \<and> pending (w_sys w') = []"
proof (induction fs w rule: fdrain.induct)
  case (1 fs w)
  show ?case
  proof (cases "pending (w_sys w) = []")
    case True
    with "1.prems" show ?thesis by (simp add: fdrain_Nil)
  next
    case False
    with "1.prems"(2) obtain w1 where ws: "world_step w (next_answer fs) = Some w1"
      and d: "fdrain (tl fs) w1 = Some w'" by (blast dest: fdrain_step)
    have "P w1" using "1.prems"(1) ws by (rule pres)
    with "1.IH" [OF False ws] d show ?thesis by blast
  qed
qed

lemma fdrain_drain: "fdrain [] w = drain w"
proof (induction w rule: drain.induct)
  case (1 w)
  show ?case
  proof (cases "pending (w_sys w) = []")
    case True
    then show ?thesis by (simp add: fdrain_Nil drain_Nil)
  next
    case False
    then obtain w1 where ws: "world_step w (Answer 0) = Some w1"
      using answer_first_defined by blast
    have "fdrain [] w = fdrain [] w1"
      using False ws by (simp add: fdrain.simps [of "[]" w] del: world_step.simps)
    also have "\<dots> = drain w1" by (rule "1.IH" [OF False ws])
    also have "\<dots> = drain w" using False ws by (simp add: drain_step)
    finally show ?thesis .
  qed
qed

lemma seqf_reachable_invariant:
  assumes r: "seqf_reachable st0 w"
    and init: "P (init_world st0)"
    and answer: "\<And>w w' fs. P w \<Longrightarrow> world_step w (next_answer fs) = Some w' \<Longrightarrow> P w'"
    and user: "\<And>w w' e. P w \<Longrightarrow> pending (w_sys w) = [] \<Longrightarrow> world_step w (User e) = Some w' \<Longrightarrow> P w'"
  shows "P w \<and> pending (w_sys w) = []"
  using r
proof (induction rule: seqf_reachable.induct)
  case (start fs w)
  from fdrain_invariant [of P, OF answer init start] show ?case .
next
  case (input w e w1 fs w2)
  with user have "P w1" by blast
  from fdrain_invariant [of P, OF answer this input.hyps(4)] show ?case .
qed

lemma seqf_world_reachable:
  assumes "seqf_reachable st0 w"
  shows "world_reachable st0 w \<and> pending (w_sys w) = []"
  using assms
proof (rule seqf_reachable_invariant [where P = "world_reachable st0"])
  show "world_reachable st0 (init_world st0)" by (rule world_reachable.init)
qed (blast intro: world_reachable.step)+

lemma seq_seqf_reachable: "seq_reachable st0 w \<Longrightarrow> seqf_reachable st0 w"
proof (induction rule: seq_reachable.induct)
  case (start w)
  then show ?case by (simp add: seqf_reachable.start [where fs = "[]"] fdrain_drain)
next
  case (input w e w1 w2)
  then show ?case by (simp add: seqf_reachable.input [where fs = "[]"] fdrain_drain)
qed

lemma seqf_run_reachable:
  "seqf_reachable st0 w \<Longrightarrow> seqf_run w es = Some w' \<Longrightarrow> seqf_reachable st0 w'"
proof (induction es arbitrary: w)
  case Nil
  then show ?case by simp
next
  case (Cons x es)
  obtain e fs where x: "x = (e, fs)" by fastforce
  with Cons obtain w1 w2 where "is_user_event e" and "world_step w (User e) = Some w1"
    and "fdrain fs w1 = Some w2" and "seqf_run w2 es = Some w'"
    by (auto split: if_splits option.splits simp del: world_step.simps)
  with Cons show ?case by (blast intro: seqf_reachable.input)
qed

section \<open>The view under failures\<close>

lemma fdrain_view:
  assumes nl: "list_all (\<lambda>rq. \<not> loads_records rq) (pending (w_sys w))" and d: "fdrain fs w = Some w'"
  shows "view_of w' = view_of w"
proof -
  let ?P = "\<lambda>x. view_of x = view_of w \<and> list_all (\<lambda>rq. \<not> loads_records rq) (pending (w_sys x))"
  have "?P w' \<and> pending (w_sys w') = []"
  proof (rule fdrain_invariant [OF _ _ d])
    fix x x' gs
    assume px: "?P x" and ws: "world_step x (next_answer gs) = Some x'"
    from ws obtain r s' rs where i: "0 < length (pending (w_sys x))"
      and se: "settle (pending (w_sys x) ! 0) r (scr (w_sys x)) = Some (s', rs)"
      and s': "scr (w_sys x') = s'" and p': "pending (w_sys x') = remove_nth 0 (pending (w_sys x)) @ rs"
      by (rule next_answerE)
    from px i have "\<not> loads_records (pending (w_sys x) ! 0)" by (simp add: list_all_length)
    from settle_records_frame [OF se this] settle_selection [OF se]
    have "screen_view s' = screen_view (scr (w_sys x))" and "list_all (\<lambda>q. \<not> loads_records q) rs"
      by (simp_all add: screen_view_def)
    moreover have "list_all (\<lambda>q. \<not> loads_records q) (remove_nth 0 (pending (w_sys x)))"
      using px set_remove_nth_subset [of 0 "pending (w_sys x)"] by (auto simp: list_all_iff)
    ultimately show "?P x'" using px s' p' by (simp add: view_of_def)
  qed (simp add: nl)
  then show ?thesis by simp
qed

text \<open>While only the record requests of one person are outstanding, settling them keeps
  the selection and either keeps the records or lists that person's debit documents.\<close>

lemma settle_record_request:
  "settle rq r s = Some (s', rs) \<Longrightarrow> rq = RqIndex pid \<or> rq = RqFind pid \<Longrightarrow>
   selectedArea s' = selectedArea s \<and> selectedPersonId s' = selectedPersonId s \<and>
   (records s' = records s \<or> (\<exists>d. rq = RqFind pid \<and> r = Fulfilled (RDocs d) \<and> records s' = list_or_empty d)) \<and>
   list_all (\<lambda>q. q = RqIndex pid \<or> q = RqFind pid) rs"
  by (erule settle.elims) (auto simp: handler_simps split: outcome.splits)

lemma fdrain_person:
  assumes wr: "world_reachable st0 w"
    and only: "list_all (\<lambda>q. q = RqIndex pid \<or> q = RqFind pid) (pending (w_sys w))"
    and d: "fdrain fs w = Some w'"
  shows "selectedArea (scr (w_sys w')) = selectedArea (scr (w_sys w)) \<and>
    selectedPersonId (scr (w_sys w')) = selectedPersonId (scr (w_sys w)) \<and>
    (records (scr (w_sys w')) = records (scr (w_sys w)) \<or> records (scr (w_sys w')) = find_docs st0 pid)"
proof -
  let ?P = "\<lambda>x. world_reachable st0 x \<and>
    selectedArea (scr (w_sys x)) = selectedArea (scr (w_sys w)) \<and>
    selectedPersonId (scr (w_sys x)) = selectedPersonId (scr (w_sys w)) \<and>
    (records (scr (w_sys x)) = records (scr (w_sys w)) \<or> records (scr (w_sys x)) = find_docs st0 pid) \<and>
    list_all (\<lambda>q. q = RqIndex pid \<or> q = RqFind pid) (pending (w_sys x))"
  have "?P w' \<and> pending (w_sys w') = []"
  proof (rule fdrain_invariant [OF _ _ d])
    fix x x' gs
    assume px: "?P x" and ws: "world_step x (next_answer gs) = Some x'"
    from ws obtain r s' rs where i: "0 < length (pending (w_sys x))"
      and r: "r = Rejected \<or> r = Fulfilled (store_answer (w_store x) (pending (w_sys x) ! 0))"
      and se: "settle (pending (w_sys x) ! 0) r (scr (w_sys x)) = Some (s', rs)"
      and s': "scr (w_sys x') = s'" and p': "pending (w_sys x') = remove_nth 0 (pending (w_sys x)) @ rs"
      by (rule next_answerE)
    have wr': "world_reachable st0 x'" using px ws by (blast intro: world_reachable.step)
    have fd: "find_docs (w_store x) pid = find_docs st0 pid"
      using world_reachable_docs [of st0 x] px by (simp add: find_docs_def)
    from px i have "pending (w_sys x) ! 0 = RqIndex pid \<or> pending (w_sys x) ! 0 = RqFind pid"
      by (simp add: list_all_length)
    from settle_record_request [OF se this] r fd
    have "selectedArea s' = selectedArea (scr (w_sys x)) \<and>
        selectedPersonId s' = selectedPersonId (scr (w_sys x)) \<and>
        (records s' = records (scr (w_sys x)) \<or> records s' = find_docs st0 pid) \<and>
        list_all (\<lambda>q. q = RqIndex pid \<or> q = RqFind pid) rs"
      by (auto simp: store_answer_def list_or_empty_def)
    moreover have "list_all (\<lambda>q. q = RqIndex pid \<or> q = RqFind pid) (remove_nth 0 (pending (w_sys x)))"
      using px set_remove_nth_subset [of 0 "pending (w_sys x)"] by (auto simp: list_all_iff)
    ultimately show "?P x'" using px wr' s' p' by auto
  qed (simp add: wr only)
  then show ?thesis by blast
qed

lemma report_rel_spec:
  "\<forall>p. e = PersonClick p \<longrightarrow> p_id p = [] \<Longrightarrow> report_rel st0 failed v e (report_spec st0 v e)"
  by (cases e) auto

text \<open>With no rejection flag, draining with failures is draining.\<close>

lemma fdrain_no_fail: "True \<notin> set fs \<Longrightarrow> fdrain fs w = drain w"
proof (induction fs w rule: fdrain.induct)
  case (1 fs w)
  show ?case
  proof (cases "pending (w_sys w) = []")
    case True
    then show ?thesis by (simp add: fdrain_Nil drain_Nil)
  next
    case False
    have na: "next_answer fs = Answer 0" using "1.prems" by (cases fs rule: next_answer.cases) auto
    then obtain w1 where ws: "world_step w (Answer 0) = Some w1"
      using answer_first_defined False by blast
    have "fdrain fs w = fdrain (tl fs) w1"
      using False ws na by (simp add: fdrain.simps [of fs w] del: world_step.simps next_answer.simps)
    also have "\<dots> = drain w1"
      using "1.IH" [OF False] ws na "1.prems" by (cases fs) auto
    also have "\<dots> = drain w" using False ws by (simp add: drain_step)
    finally show ?thesis .
  qed
qed

text \<open>The index request of a person, answered, ends with that person's debit documents
  listed.\<close>

lemma drain_record_requests:
  assumes wr: "world_reachable st0 w" and p: "pending (w_sys w) = [RqIndex pid]" and d: "drain w = Some w'"
  shows "records (scr (w_sys w')) = find_docs st0 pid"
proof -
  have fd: "find_docs (w_store w) pid = find_docs st0 pid"
    using world_reachable_docs [OF wr] by (simp add: find_docs_def)
  let ?w1 = "\<lparr>w_sys = \<lparr>scr = scr (w_sys w), pending = [RqFind pid]\<rparr>,
     w_store = create_index (w_store w) record_index\<rparr>"
  from d p have "drain ?w1 = Some w'"
    by (simp add: drain.simps [of w] store_answer_def handler_simps remove_nth_def store_effect_def)
  with fd show ?thesis
    by (auto simp: drain.simps [of ?w1] drain_Nil store_answer_def handler_simps remove_nth_def
        list_or_empty_def)
qed
section \<open>Refinement under failures\<close>

text \<open>C7: In sequential use where any request may fail, for any store, every input the
  page accepts, followed by settling all requests it causes, changes the selected area,
  the selected person and the listed records as the relational report specification
  allows: exactly as \<open>report_spec\<close>, except that a person pick may keep the records
  listed before, and only when one of the requests it causes is rejected.\<close>

theorem failures_refine_report_rel:
  assumes r: "seqf_reachable st0 w" and ws: "world_step w (User e) = Some w1"
    and d: "fdrain fs w1 = Some w2"
  shows "report_rel st0 (True \<in> set fs) (view_of w) e (view_of w2)"
proof -
  have wr: "world_reachable st0 w" and np: "pending (w_sys w) = []"
    using seqf_world_reachable [OF r] by simp_all
  have si: "screen_inv (w_sys w)" using wr by (blast dest: world_reachable_reachable reachable_inv)
  from ws si obtain ue: "is_user_event e" and st: "step (w_sys w) e = Some (w_sys w1)"
    and db: "db (scr (w_sys w)) \<noteq> None"
    by (rule world_step_userE)
  show ?thesis
  proof (cases "\<exists>p. e = PersonClick p \<and> p_id p \<noteq> []")
    case False
    then have e: "\<forall>p. e = PersonClick p \<longrightarrow> p_id p = []" by blast
    from user_step_view [OF st ue e, of st0] np fdrain_view [OF _ d]
    have "view_of w2 = report_spec st0 (view_of w) e" by (auto simp: view_of_def)
    with report_rel_spec [OF e] show ?thesis by simp
  next
    case True
    then obtain p where e: "e = PersonClick p" and pid: "p_id p \<noteq> []" by blast
    from person_step_view [OF st [unfolded e] pid db] np
    have v1: "view_of w1 = (view_of w)\<lparr>v_person := p_id p\<rparr>"
      and p1: "pending (w_sys w1) = [RqIndex (p_id p)]"
      by (simp_all add: view_of_def)
    have wr1: "world_reachable st0 w1" using wr ws by (rule world_reachable.step)
    from fdrain_person [OF wr1 _ d, of "p_id p"] p1 v1
    have keep: "view_of w2 = (view_of w)\<lparr>v_person := p_id p\<rparr> \<or>
        view_of w2 = (view_of w)\<lparr>v_person := p_id p, v_records := find_docs st0 (p_id p)\<rparr>"
      by (auto simp: view_of_def screen_view_def)
    have "records (scr (w_sys w2)) = find_docs st0 (p_id p)" if nf: "True \<notin> set fs"
    proof -
      from d fdrain_no_fail [OF nf] have "drain w1 = Some w2" by simp
      from drain_record_requests [OF wr1 p1 this] show ?thesis .
    qed
    with keep e pid show ?thesis by (auto simp: view_of_def screen_view_def)
  qed
qed

end
