(* ===== verification/Page.thy ===== *)
theory Page
  imports Failures Render
begin

text \<open>
  What the page renders (page.tsx lines 74-219), without the styling: the loading message
  while \<open>loading\<close> holds, otherwise the three inputs with their values, the two
  suggestion lists with their keys and labels, and the records section. The inputs are
  controlled: React shows \<open>String(v)\<close> for a defined value \<open>v\<close>. A \<open>null\<close> or
  \<open>undefined\<close> value would make the input uncontrolled; \<open>input_value\<close> shows the empty
  text there, and the invariants below show that it never happens. A connection suggestion
  renders \<open>{label} {p.name ? `... ${p.name}` : ''}\<close>; the literal between label and
  name is a mis-encoded em dash made of code units beyond Latin-1, so \<open>conn_item\<close> keeps
  the label and the optional name apart instead of spelling the separator.
\<close>

fun input_value :: "jsval \<Rightarrow> string" where
  "input_value JUndefined = []"
| "input_value JNull = []"
| "input_value v = js_string v"

record conn_item =
  ci_key :: doc_id
  ci_label :: string
  ci_name :: "string option"

definition conn_item_of :: "person \<Rightarrow> conn_item" where
  "conn_item_of p =
     \<lparr>ci_key = p_id p, ci_label = react_text (conn_value p),
      ci_name = (if js_truthy (p_name p) then Some (js_string (p_name p)) else None)\<rparr>"

record main_view =
  mv_area_value :: string
  mv_area_items :: "(doc_id \<times> string) list"
  mv_conn_value :: string
  mv_conn_items :: "conn_item list"
  mv_person_value :: string
  mv_records :: records_section

datatype page_view = LoadingView | MainView main_view

definition render_page :: "host_fmt \<Rightarrow> screen \<Rightarrow> page_view" where
  "render_page fmt s =
     (if loading s then LoadingView
      else MainView
        \<lparr>mv_area_value = input_value (areaQuery s),
         mv_area_items = map (\<lambda>a. (a_id a, react_text (a_name a))) (areaSuggestions s),
         mv_conn_value = connectionQuery s,
         mv_conn_items = map conn_item_of (connectionSuggestions s),
         mv_person_value = input_value (selectedPersonName s),
         mv_records = records_view fmt (records s)\<rparr>)"

text \<open>The state facts the rendering relies on: both \<open>jsval\<close> inputs hold a defined
  value, and a person is selected only after loading has ended.\<close>

definition inputs_inv :: "sys \<Rightarrow> bool" where
  "inputs_inv st \<longleftrightarrow>
     \<not> js_nullish (areaQuery (scr st)) \<and> \<not> js_nullish (selectedPersonName (scr st)) \<and>
     (selectedPersonId (scr st) \<noteq> [] \<longrightarrow> \<not> loading (scr st))"

text \<open>A value that \<open>v || ""\<close> turns into a string.\<close>

definition string_named :: "jsval \<Rightarrow> bool" where
  "string_named v \<longleftrightarrow> is_jstr v \<or> \<not> js_truthy v"

text \<open>Where the page's values come from: areas and suggestions of the store, persons of
  the store; and, when the store's names are strings, string-typed inputs.\<close>

definition typed_inv :: "store \<Rightarrow> world \<Rightarrow> bool" where
  "typed_inv st0 w \<longleftrightarrow>
     st_areas (w_store w) = st_areas st0 \<and> st_persons (w_store w) = st_persons st0 \<and>
     set (areas (scr (w_sys w))) \<subseteq> set (st_areas st0) \<and>
     set (areaSuggestions (scr (w_sys w))) \<subseteq> set (st_areas st0) \<and>
     set (personsInArea (scr (w_sys w))) \<subseteq> set (st_persons st0) \<and>
     is_jstr (areaQuery (scr (w_sys w))) \<and> is_jstr (selectedPersonName (scr (w_sys w)))"

declare input_value.simps [eval_simps] conn_item_of_def [eval_simps] render_page_def [eval_simps]

section \<open>The inputs stay controlled\<close>

lemma input_value_defined: "\<not> js_nullish v \<Longrightarrow> input_value v = js_string v"
  by (cases v) simp_all

lemma conn_value_not_nullish [simp]: "\<not> js_nullish (conn_value p)"
  by (simp add: conn_value_def js_coalesce_def)

lemma settle_inputs_frame:
  "settle rq r s = Some (s', rs) \<Longrightarrow>
   areaQuery s' = areaQuery s \<and> selectedPersonName s' = selectedPersonName s \<and>
   areaSuggestions s' = areaSuggestions s \<and> (loading s' \<longrightarrow> loading s)"
  by (erule settle.elims) (auto simp: handler_simps split: outcome.splits option.splits)

lemma step_SettleD:
  "step st (Settle i r) = Some st' \<Longrightarrow>
   \<exists>s' rs. i < length (pending st) \<and> settle (pending st ! i) r (scr st) = Some (s', rs) \<and> scr st' = s'"
  by (auto split: if_splits option.splits)

lemma step_inputs_inv:
  assumes inv: "inputs_inv st" and st: "step st e = Some st'"
  shows "inputs_inv st'"
proof (cases e)
  case (Settle i r)
  with st obtain s' rs where se: "settle (pending st ! i) r (scr st) = Some (s', rs)" and s': "scr st' = s'"
    by (blast dest: step_SettleD)
  from settle_inputs_frame [OF se] settle_selection [OF se] inv s' show ?thesis
    by (auto simp: inputs_inv_def)
qed (use inv st in \<open>auto simp: inputs_inv_def handler_simps Let_def split: if_splits\<close>)

lemma reachable_inputs_inv: "reachable st \<Longrightarrow> inputs_inv st"
proof (induction rule: reachable.induct)
  case init
  show ?case by (simp add: inputs_inv_def init_sys_def init_screen_def)
next
  case (step st e st')
  from step.IH step.hyps(2) show ?case by (rule step_inputs_inv)
qed

section \<open>String-typed inputs\<close>

lemma st_areas_store_effect [simp]: "st_areas (store_effect rq st) = st_areas st"
  by (simp add: store_effect_def split: request.splits)

lemma settle_sources:
  "settle rq r s = Some (s', rs) \<Longrightarrow>
   (areas s' = areas s \<or> (\<exists>a. r = Fulfilled (RAreas a) \<and> areas s' = list_or_empty a)) \<and>
   (personsInArea s' = personsInArea s \<or>
      (\<exists>aid p. rq = RqPersons aid \<and> r = Fulfilled (RPersons p) \<and> personsInArea s' = list_or_empty p))"
  by (erule settle.elims) (auto simp: handler_simps split: outcome.splits option.splits)

lemma string_named_found:
  "list_all (\<lambda>p. string_named (p_name p)) ps \<Longrightarrow>
   is_jstr (js_or (case find P ps of None \<Rightarrow> JUndefined | Some x \<Rightarrow> p_name x) (JStr []))"
  by (auto simp: js_or_def string_named_def list_all_iff split: option.splits)

lemma settle_typed_inv:
  assumes inv: "typed_inv st0 w"
    and se: "settle (pending (w_sys w) ! i) r (scr (w_sys w)) = Some (s', rs)"
    and r: "r = Rejected \<or> r = Fulfilled (store_answer (w_store w) (pending (w_sys w) ! i))"
    and s': "scr (w_sys w') = s'"
    and store: "st_areas (w_store w') = st_areas (w_store w)" "st_persons (w_store w') = st_persons (w_store w)"
  shows "typed_inv st0 w'"
proof -
  have "set (areas s') \<subseteq> set (st_areas st0) \<and> set (personsInArea s') \<subseteq> set (st_persons st0)"
    using settle_sources [OF se] r inv
    by (auto simp: typed_inv_def store_answer_def get_areas_def get_persons_by_area_def
        list_or_empty_def split: request.splits)
  with settle_inputs_frame [OF se] inv s' store show ?thesis by (simp add: typed_inv_def)
qed

lemma user_typed_inv:
  assumes wfA: "list_all (\<lambda>a. string_named (a_name a)) (st_areas st0)"
    and wfP: "list_all (\<lambda>p. string_named (p_name p)) (st_persons st0)"
    and inv: "typed_inv st0 w" and ue: "is_user_event e" and st: "step (w_sys w) e = Some (w_sys w')"
    and store: "w_store w' = w_store w"
  shows "typed_inv st0 w'"
proof (cases e)
  case (AreaInput q)
  with st have "w_sys w' = w_sys w\<lparr>scr := area_on_change q (scr (w_sys w))\<rparr>"
    by (simp split: if_splits)
  with inv store area_filter_bound [of "areas (scr (w_sys w))" q] show ?thesis
    by (auto simp: typed_inv_def handler_simps)
next
  case (AreaClick a)
  with st have a: "a \<in> set (areaSuggestions (scr (w_sys w)))"
    and sy: "w_sys w' = issue (w_sys w) (area_pick a (scr (w_sys w)))" by (simp_all split: if_splits)
  from a inv have "a \<in> set (st_areas st0)" by (auto simp: typed_inv_def)
  with wfA have "string_named (a_name a)" by (simp add: list_all_iff)
  then have "is_jstr (js_or (a_name a) (JStr []))"
    unfolding string_named_def by (rule js_or_is_jstr) simp
  with sy inv store show ?thesis by (auto simp: typed_inv_def handler_simps Let_def)
next
  case (ConnInput q)
  with st have "w_sys w' = issue (w_sys w) (conn_on_change q (scr (w_sys w)))" by (simp split: if_splits)
  with inv store show ?thesis by (auto simp: typed_inv_def handler_simps Let_def)
next
  case (PersonClick p)
  with st have sy: "w_sys w' = issue (w_sys w) (on_person_select (p_id p) (scr (w_sys w)))"
    by (simp split: if_splits)
  from inv wfP have "list_all (\<lambda>p. string_named (p_name p)) (personsInArea (scr (w_sys w)))"
    by (auto simp: typed_inv_def list_all_iff)
  from string_named_found [OF this, of "\<lambda>x. p_id x = p_id p"] sy inv store
  show ?thesis by (auto simp: typed_inv_def handler_simps Let_def)
next
  case (Settle i r)
  with ue show ?thesis by simp
qed

text \<open>A step of the page composed with the store is a user input, which leaves the store
  alone, or the settling of an outstanding request with the store's answer or a rejection,
  which keeps the store's areas and persons.\<close>

lemma world_stepE:
  assumes ws: "world_step w ev = Some w'"
  obtains (user) e where "is_user_event e" "step (w_sys w) e = Some (w_sys w')" "w_store w' = w_store w"
  | (settle) i r s' rs where "settle (pending (w_sys w) ! i) r (scr (w_sys w)) = Some (s', rs)"
      "r = Rejected \<or> r = Fulfilled (store_answer (w_store w) (pending (w_sys w) ! i))"
      "scr (w_sys w') = s'" "st_areas (w_store w') = st_areas (w_store w)"
      "st_persons (w_store w') = st_persons (w_store w)"
proof (cases ev)
  case (User e)
  with ws have "is_user_event e" and "step (w_sys w) e = Some (w_sys w')" and "w_store w' = w_store w"
    by (auto split: if_splits simp del: step.simps)
  then show ?thesis by (rule user)
next
  case (Answer i)
  with ws obtain s' rs where
    se: "settle (pending (w_sys w) ! i) (Fulfilled (store_answer (w_store w) (pending (w_sys w) ! i)))
       (scr (w_sys w)) = Some (s', rs)"
    and sc: "scr (w_sys w') = s'" and st': "w_store w' = store_effect (pending (w_sys w) ! i) (w_store w)"
    by (blast elim: world_step_answerE)
  show ?thesis by (rule settle [OF se _ sc]) (simp_all add: st')
next
  case (Fail i)
  with ws obtain s' rs where se: "settle (pending (w_sys w) ! i) Rejected (scr (w_sys w)) = Some (s', rs)"
    and sc: "scr (w_sys w') = s'" and st': "w_store w' = w_store w"
    by (blast elim: world_step_failE)
  show ?thesis by (rule settle [OF se _ sc]) (simp_all add: st')
qed

lemma world_step_typed_inv:
  assumes wfA: "list_all (\<lambda>a. string_named (a_name a)) (st_areas st0)"
    and wfP: "list_all (\<lambda>p. string_named (p_name p)) (st_persons st0)"
    and inv: "typed_inv st0 w" and ws: "world_step w ev = Some w'"
  shows "typed_inv st0 w'"
  using ws
proof (cases rule: world_stepE)
  case (user e)
  with wfA wfP inv show ?thesis by (blast intro: user_typed_inv)
next
  case (settle i r s' rs)
  from settle_typed_inv [OF inv settle] show ?thesis .
qed

lemma world_reachable_typed_inv:
  assumes wfA: "list_all (\<lambda>a. string_named (a_name a)) (st_areas st0)"
    and wfP: "list_all (\<lambda>p. string_named (p_name p)) (st_persons st0)"
  shows "world_reachable st0 w \<Longrightarrow> typed_inv st0 w"
proof (induction rule: world_reachable.induct)
  case init
  show ?case by (simp add: typed_inv_def init_world_def init_sys_def init_screen_def)
next
  case (step w ev w')
  with wfA wfP show ?case by (blast intro: world_step_typed_inv)
qed

section \<open>Properties\<close>

text \<open>C19: In every reachable state the area input and the person input receive a defined
  value (never \<open>null\<close> or \<open>undefined\<close>), so both stay controlled inputs showing
  \<open>String\<close> of their state.\<close>

theorem inputs_controlled:
  assumes "reachable st"
  shows "\<not> js_nullish (areaQuery (scr st)) \<and> \<not> js_nullish (selectedPersonName (scr st))"
  using reachable_inputs_inv [OF assms] by (simp add: inputs_inv_def)

text \<open>C18: When the store's area and person names are strings (or falsy), the area input
  and the person input hold strings in every reachable state of the page composed with the
  store, under any answers, failures and orders: the \<open>string\<close> type the page's state
  declares for them holds.\<close>

theorem inputs_string_typed:
  assumes "world_reachable st0 w"
    and "list_all (\<lambda>a. string_named (a_name a)) (st_areas st0)"
    and "list_all (\<lambda>p. string_named (p_name p)) (st_persons st0)"
  shows "is_jstr (areaQuery (scr (w_sys w))) \<and> is_jstr (selectedPersonName (scr (w_sys w)))"
  using world_reachable_typed_inv [OF assms(2,3) assms(1)] by (simp add: typed_inv_def)

text \<open>C17: For a clicked suggestion that the area's person list holds under its id (a
  free-text search result is not there, and its click clears the text instead), the text of
  the suggestion and what clicking it shows agree: the connection input then
  shows exactly the suggestion's label (unless the connection value is a boolean, which
  React does not print), and the person input shows exactly the name printed after the
  dash, or nothing when the suggestion shows no name.\<close>

theorem person_click_shows_item_text:
  assumes st: "step sy (PersonClick p) = Some sy'"
    and found: "find (\<lambda>x. p_id x = p_id p) (personsInArea (scr sy)) = Some p"
    and nb: "\<not> is_jbool (conn_value p)"
  shows "\<exists>v. render_page fmt (scr sy') = MainView v \<and>
    mv_conn_value v = ci_label (conn_item_of p) \<and>
    mv_person_value v = (case ci_name (conn_item_of p) of None \<Rightarrow> [] | Some n \<Rightarrow> n)"
proof -
  from st have nl: "\<not> loading (scr sy)"
    and sy': "scr sy' = fst (on_person_select (p_id p) (scr sy))"
    by (auto simp: issue_def split: if_splits)
  have label: "conn_label p = react_text (conn_value p)"
    using react_text_js_string [OF conn_value_not_nullish nb] by (simp add: conn_label_def)
  have name: "input_value (js_or (p_name p) (JStr [])) =
      (if js_truthy (p_name p) then js_string (p_name p) else [])"
    by (cases "p_name p") (simp_all add: js_or_def)
  from nl sy' found label name show ?thesis
    by (simp add: render_page_def conn_item_of_def on_person_select_def Let_def)
qed

text \<open>C16: In sequential use, for any store, once a person is selected the page shows its
  controls (not the loading message) and its records section renders exactly the store's
  debit documents of that person, in store order: the empty-records message when there
  are none, otherwise one row per document with its month, \<open>$\<close> and the amount's
  \<open>toFixed(2)\<close>, and its creation time in the host's locale or \<open>-\<close>.\<close>

theorem sequential_page_shows_records:
  assumes r: "seq_reachable st0 w" and sel: "selectedPersonId (scr (w_sys w)) \<noteq> []"
  shows "\<exists>v. render_page fmt (scr (w_sys w)) = MainView v \<and>
    (let docs = filter (\<lambda>d. r_type d = JStr ''debit'' \<and> personId d = JStr (selectedPersonId (scr (w_sys w))))
                  (st_docs st0)
     in mv_records v =
       (if docs = [] then NoRecords
        else RecordRows (map (\<lambda>d. (react_text (month d), CHR ''$'' # to_fixed2 (fmt_number fmt) (amount d),
                                    if js_truthy (createdAt d) then fmt_locale fmt (createdAt d) else ''-'')) docs)))"
proof -
  have "reachable (w_sys w)"
    using r by (blast dest: seq_world_reachable world_reachable_reachable)
  with sel have nl: "\<not> loading (scr (w_sys w))"
    using reachable_inputs_inv by (auto simp: inputs_inv_def)
  from seq_reachable_records_inv [OF r] sel
  have "records (scr (w_sys w)) = find_docs st0 (selectedPersonId (scr (w_sys w)))"
    unfolding records_inv_def by auto
  with nl show ?thesis
    by (simp add: render_page_def find_docs_def debit_selector_def [abs_def] records_view_def
        render_row_def render_created_def Let_def)
qed

section \<open>Witnesses\<close>

theorem inputs_controlled_witness:
  "reachable demo_ready \<and> \<not> js_nullish (areaQuery (scr demo_ready)) \<and>
   \<not> js_nullish (selectedPersonName (scr demo_ready))"
  using inputs_controlled [OF demo_ready_reachable] demo_ready_reachable by simp

theorem person_click_shows_item_text_witness:
  "\<exists>sy' v. step demo_conn_typed (PersonClick demo_jane) = Some sy' \<and>
     find (\<lambda>x. p_id x = p_id demo_jane) (personsInArea (scr demo_conn_typed)) = Some demo_jane \<and>
     \<not> is_jbool (conn_value demo_jane) \<and>
     render_page plain_fmt (scr sy') = MainView v \<and>
     mv_conn_value v = ''12345'' \<and> mv_person_value v = ''Jane Doe''"
proof -
  obtain sy' where st: "step demo_conn_typed (PersonClick demo_jane) = Some sy'"
    by (simp add: eval_simps)
  have found: "find (\<lambda>x. p_id x = p_id demo_jane) (personsInArea (scr demo_conn_typed)) = Some demo_jane"
    and nb: "\<not> is_jbool (conn_value demo_jane)"
    by (simp_all add: eval_simps)
  from person_click_shows_item_text [OF st found nb, of plain_fmt] obtain v
    where "render_page plain_fmt (scr sy') = MainView v"
      and "mv_conn_value v = ci_label (conn_item_of demo_jane)"
      and "mv_person_value v = (case ci_name (conn_item_of demo_jane) of None \<Rightarrow> [] | Some n \<Rightarrow> n)"
    by blast
  moreover have "ci_label (conn_item_of demo_jane) = ''12345''"
    and "ci_name (conn_item_of demo_jane) = Some ''Jane Doe''"
    by (simp_all add: eval_simps)
  ultimately show ?thesis using st found nb by auto
qed

end
