(* ===== verification/Navigation.thy ===== *)
theory Navigation
  imports Page
begin

text \<open>
  Which reports the page lets the user reach. In sequential use, typing an area's label,
  picking the area, typing a person's connection label and picking the person shows that
  person's debit records, provided the area is among the first 20 areas matching its own
  label and the person among the first 20 in-area persons matching its connection label
  (\<open>report_reachable\<close>). The converse fails for the page as written: the suggestion lists
  are cut at 20 with no way to see more, and typing an area's full label is the best query
  for it (\<open>Search.area_filter_best_query\<close>), so an area behind 20 areas whose labels
  extend its own can never be selected, under any answers, failures and orders
  (\<open>crowded_area_never_selected\<close>).
\<close>

text \<open>Twenty areas named North 1 .. North 20 listed before the area North.\<close>

definition crowded_areas :: "area list" where
  "crowded_areas =
     [\<lparr>a_id = ''n1'', a_name = JStr ''North 1''\<rparr>,
      \<lparr>a_id = ''n2'', a_name = JStr ''North 2''\<rparr>,
      \<lparr>a_id = ''n3'', a_name = JStr ''North 3''\<rparr>,
      \<lparr>a_id = ''n4'', a_name = JStr ''North 4''\<rparr>,
      \<lparr>a_id = ''n5'', a_name = JStr ''North 5''\<rparr>,
      \<lparr>a_id = ''n6'', a_name = JStr ''North 6''\<rparr>,
      \<lparr>a_id = ''n7'', a_name = JStr ''North 7''\<rparr>,
      \<lparr>a_id = ''n8'', a_name = JStr ''North 8''\<rparr>,
      \<lparr>a_id = ''n9'', a_name = JStr ''North 9''\<rparr>,
      \<lparr>a_id = ''n10'', a_name = JStr ''North 10''\<rparr>,
      \<lparr>a_id = ''n11'', a_name = JStr ''North 11''\<rparr>,
      \<lparr>a_id = ''n12'', a_name = JStr ''North 12''\<rparr>,
      \<lparr>a_id = ''n13'', a_name = JStr ''North 13''\<rparr>,
      \<lparr>a_id = ''n14'', a_name = JStr ''North 14''\<rparr>,
      \<lparr>a_id = ''n15'', a_name = JStr ''North 15''\<rparr>,
      \<lparr>a_id = ''n16'', a_name = JStr ''North 16''\<rparr>,
      \<lparr>a_id = ''n17'', a_name = JStr ''North 17''\<rparr>,
      \<lparr>a_id = ''n18'', a_name = JStr ''North 18''\<rparr>,
      \<lparr>a_id = ''n19'', a_name = JStr ''North 19''\<rparr>,
      \<lparr>a_id = ''n20'', a_name = JStr ''North 20''\<rparr>,
      \<lparr>a_id = ''a1'', a_name = JStr ''North''\<rparr>]"

definition crowded_store :: store where
  "crowded_store =
     \<lparr>st_available = True, st_areas = crowded_areas,
      st_persons = [\<lparr>p_id = ''p1'', areaId = ''a1'', connectionNumber = JStr ''12345'', number = JUndefined,
                     p_name = JStr ''Jane Doe''\<rparr>],
      st_docs = [], st_indexes = [], st_search = None\<rparr>"

text \<open>Where the area selection can come from: the loaded areas are none or the store's,
  every suggestion list lies within the store's matches for some query, and a selected
  area is the id of such a match.\<close>

definition area_source_inv :: "store \<Rightarrow> world \<Rightarrow> bool" where
  "area_source_inv st0 w \<longleftrightarrow>
     st_areas (w_store w) = st_areas st0 \<and>
     (areas (scr (w_sys w)) = [] \<or> areas (scr (w_sys w)) = st_areas st0) \<and>
     (\<exists>q. set (areaSuggestions (scr (w_sys w))) \<subseteq> set (area_filter (st_areas st0) q)) \<and>
     (selectedArea (scr (w_sys w)) = [] \<or>
      (\<exists>q. \<exists>b\<in>set (area_filter (st_areas st0) q). a_id b = selectedArea (scr (w_sys w))))"

declare crowded_areas_def [eval_simps] crowded_store_def [eval_simps]

section \<open>Start-up and a session\<close>

lemma drain_startup:
  assumes "st_available st0"
  shows "drain (init_world st0) =
    Some \<lparr>w_sys = \<lparr>scr = init_screen\<lparr>db := init_db st0, areas := st_areas st0, loading := False\<rparr>,
                    pending = []\<rparr>, w_store = st0\<rparr>"
  using assms
  by (simp add: drain.simps init_world_def init_sys_def init_db_def store_answer_def handler_simps
      remove_nth_def get_areas_def list_or_empty_def store_effect_def)

lemma session_to_person:
  assumes "st_available st0" and "a_id a \<noteq> []" and "area_label a \<noteq> []"
    and "a \<in> set (area_filter (st_areas st0) (area_label a))"
    and "conn_label p \<noteq> []"
    and "p \<in> set (person_filter (get_persons_by_area st0 (a_id a)) (conn_label p))"
  shows "\<exists>w. seq_run \<lparr>w_sys = \<lparr>scr = init_screen\<lparr>db := init_db st0, areas := st_areas st0, loading := False\<rparr>,
                    pending = []\<rparr>, w_store = st0\<rparr>
               [AreaInput (area_label a), AreaClick a, ConnInput (conn_label p)] = Some w \<and>
     selectedArea (scr (w_sys w)) = a_id a \<and> p \<in> set (connectionSuggestions (scr (w_sys w))) \<and>
     \<not> loading (scr (w_sys w))"
  using assms
  by (simp add: drain.simps init_db_def store_answer_def handler_simps Let_def init_screen_def
      remove_nth_def list_or_empty_def store_effect_def)

section \<open>Reaching a report\<close>

text \<open>C8: In sequential use, for any available store, the user reaches the report of a
  person p of an area a (a selected, p selected, p's debit documents listed) by typing a's
  label, picking a, typing p's connection label and picking p, whenever a is among the
  first 20 areas matching its label and p among the first 20 persons of a matching its
  connection label.\<close>

theorem report_reachable:
  assumes avail: "st_available st0" and aid: "a_id a \<noteq> []" and lab: "area_label a \<noteq> []"
    and inA: "a \<in> set (area_filter (st_areas st0) (area_label a))"
    and pid: "p_id p \<noteq> []" and cl: "conn_label p \<noteq> []"
    and inP: "p \<in> set (person_filter (get_persons_by_area st0 (a_id a)) (conn_label p))"
  shows "\<exists>w. seq_reachable st0 w \<and>
    view_of w = \<lparr>v_area = a_id a, v_person = p_id p, v_records = find_docs st0 (p_id p)\<rparr>"
proof -
  let ?w0 = "\<lparr>w_sys = \<lparr>scr = init_screen\<lparr>db := init_db st0, areas := st_areas st0, loading := False\<rparr>,
                    pending = []\<rparr>, w_store = st0\<rparr>"
  have r0: "seq_reachable st0 ?w0" by (rule seq_reachable.start [OF drain_startup [OF avail]])
  from session_to_person [OF avail aid lab inA cl inP] obtain w3
    where run: "seq_run ?w0 [AreaInput (area_label a), AreaClick a, ConnInput (conn_label p)] = Some w3"
      and sa: "selectedArea (scr (w_sys w3)) = a_id a"
      and ps: "p \<in> set (connectionSuggestions (scr (w_sys w3)))"
      and nl: "\<not> loading (scr (w_sys w3))"
    by blast
  have r3: "seq_reachable st0 w3" by (rule seq_run_reachable [OF r0 run])
  have "\<exists>w4. world_step w3 (User (PersonClick p)) = Some w4" using nl ps by simp
  then obtain w4 where ws: "world_step w3 (User (PersonClick p)) = Some w4" by blast
  obtain w5 where d: "drain w4 = Some w5" using drain_defined [of w4] by blast
  have r5: "seq_reachable st0 w5" by (rule seq_reachable.input [OF r3 _ ws d]) simp
  from seq_person_click_view [OF r3 ws d pid] sa
  have "view_of w5 = \<lparr>v_area = a_id a, v_person = p_id p, v_records = find_docs st0 (p_id p)\<rparr>"
    by (simp add: view_of_def screen_view_def)
  with r5 show ?thesis by blast
qed

section \<open>An area that can never be selected\<close>

lemma user_area_source_inv:
  assumes inv: "area_source_inv st0 w" and ue: "is_user_event e"
    and st: "step (w_sys w) e = Some (w_sys w')" and store: "w_store w' = w_store w"
  shows "area_source_inv st0 w'"
proof -
  let ?s = "scr (w_sys w)"
  from inv obtain q0 where q0: "set (areaSuggestions ?s) \<subseteq> set (area_filter (st_areas st0) q0)"
    by (auto simp: area_source_inv_def)
  have filt: "set (area_filter (areas ?s) q) \<subseteq> set (area_filter (st_areas st0) q)" for q
    using inv by (auto simp: area_source_inv_def area_filter_def)
  show ?thesis
  proof (cases e)
    case (AreaInput q)
    with st have "w_sys w' = w_sys w\<lparr>scr := area_on_change q ?s\<rparr>" by (simp split: if_splits)
    with inv store filt [of q] show ?thesis
      by (auto simp: area_source_inv_def handler_simps)
  next
    case (AreaClick a)
    with st have a: "a \<in> set (areaSuggestions ?s)"
      and sy: "w_sys w' = issue (w_sys w) (area_pick a ?s)" by (simp_all split: if_splits)
    from a q0 have "a \<in> set (area_filter (st_areas st0) q0)" by blast
    with sy inv store show ?thesis
      by (auto simp: area_source_inv_def handler_simps Let_def)
  next
    case (ConnInput q)
    with st have "w_sys w' = issue (w_sys w) (conn_on_change q ?s)" by (simp split: if_splits)
    with inv store show ?thesis
      by (simp add: area_source_inv_def handler_simps Let_def split: if_splits option.splits)
  next
    case (PersonClick p)
    with st have "w_sys w' = issue (w_sys w) (on_person_select (p_id p) ?s)" by (simp split: if_splits)
    with inv store show ?thesis by (simp add: area_source_inv_def handler_simps Let_def)
  next
    case (Settle i r)
    with ue show ?thesis by simp
  qed
qed

lemma world_step_area_source_inv:
  assumes inv: "area_source_inv st0 w" and ws: "world_step w ev = Some w'"
  shows "area_source_inv st0 w'"
  using ws
proof (cases rule: world_stepE)
  case (user e)
  with inv show ?thesis by (blast intro: user_area_source_inv)
next
  case (settle i r s' rs)
  have "areas s' = [] \<or> areas s' = st_areas st0"
    using settle_sources [OF settle(1)] settle(2) inv
    by (auto simp: area_source_inv_def store_answer_def get_areas_def list_or_empty_def
        split: request.splits)
  with settle_inputs_frame [OF settle(1)] settle_selection [OF settle(1)] settle(3,4) inv
  show ?thesis by (simp add: area_source_inv_def)
qed

lemma world_reachable_area_source_inv: "world_reachable st0 w \<Longrightarrow> area_source_inv st0 w"
proof (induction rule: world_reachable.induct)
  case init
  show ?case by (simp add: area_source_inv_def init_world_def init_sys_def init_screen_def)
next
  case (step w ev w')
  then show ?case by (blast intro: world_step_area_source_inv)
qed

lemma crowded_north_hidden: "area_filter crowded_areas ''North'' = take 20 crowded_areas"
  by (simp add: eval_simps)

text \<open>C15: With twenty areas North 1 .. North 20 listed before the area North, no
  interleaving of inputs, answers and failures ever selects North: the suggestion list
  for any query that matches North is full before North, so the area, and every report of
  its persons, is out of the user's reach.\<close>

theorem crowded_area_never_selected:
  assumes r: "world_reachable crowded_store w"
  shows "\<lparr>a_id = ''a1'', a_name = JStr ''North''\<rparr> \<in> set (st_areas crowded_store) \<and>
    selectedArea (scr (w_sys w)) \<noteq> ''a1''"
proof -
  let ?north = "\<lparr>a_id = ''a1'', a_name = JStr ''North''\<rparr>"
  have mem: "?north \<in> set (st_areas crowded_store)" by (simp add: eval_simps)
  have "selectedArea (scr (w_sys w)) \<noteq> ''a1''"
  proof
    assume sel: "selectedArea (scr (w_sys w)) = ''a1''"
    with world_reachable_area_source_inv [OF r] obtain q b
      where b: "b \<in> set (area_filter crowded_areas q)" and bid: "a_id b = ''a1''"
      by (auto simp: area_source_inv_def crowded_store_def)
    from b have "b \<in> set crowded_areas" using area_filter_bound by blast
    with bid have "b = ?north" by (auto simp: crowded_areas_def)
    with area_filter_own_label [OF b] have "?north \<in> set (area_filter crowded_areas ''North'')"
      by (simp add: area_label_def js_or_def)
    then show False by (simp only: crowded_north_hidden) (simp add: crowded_areas_def)
  qed
  with mem show ?thesis by blast
qed

section \<open>Witnesses\<close>

theorem crowded_area_never_selected_witness:
  "world_reachable crowded_store (init_world crowded_store) \<and>
   selectedArea (scr (w_sys (init_world crowded_store))) \<noteq> ''a1''"
  using crowded_area_never_selected [OF world_reachable.init] world_reachable.init by blast

end
