(* ===== verification/Page_Flow.thy ===== *)
theory Page_Flow
  imports Page
begin

text \<open>
  Properties of the rendered page over whole runs. The area suggestion list is keyed by
  \<open>a._id\<close> (line 114): React needs the keys of one list to be distinct, and
  \<open>keys_inv\<close> shows the suggestions are always a subsequence of the store's areas, so
  their keys are distinct whenever the store's area ids are. The connection list is keyed
  by \<open>p._id\<close> but may hold the store's free-text search results, whose shape the
  page does not control, so its keys are distinct only in sequential use with an area
  selected (\<open>conn_keys_inv\<close>). Then come what the page renders after a person is
  picked in sequential use, and what it renders once the mount effect (lines 22-33) has
  settled under any failures.
\<close>

definition keys_inv :: "store \<Rightarrow> world \<Rightarrow> bool" where
  "keys_inv st0 w \<longleftrightarrow>
     st_areas (w_store w) = st_areas st0 \<and>
     (areas (scr (w_sys w)) = [] \<or> areas (scr (w_sys w)) = st_areas st0) \<and>
     subseq (areaSuggestions (scr (w_sys w))) (st_areas st0)"

definition rejected_at :: "bool list \<Rightarrow> nat \<Rightarrow> bool" where
  "rejected_at fs n \<longleftrightarrow> n < length fs \<and> fs ! n"

definition empty_main :: main_view where
  "empty_main = \<lparr>mv_area_value = [], mv_area_items = [], mv_conn_value = [], mv_conn_items = [],
     mv_person_value = [], mv_records = NoRecords\<rparr>"

section \<open>The area suggestions are a subsequence of the store's areas\<close>

lemma area_filter_subseq: "subseq (area_filter xs q) xs"
  by (simp add: area_filter_def)

lemma user_keys_inv:
  assumes inv: "keys_inv st0 w" and ue: "is_user_event e"
    and st: "step (w_sys w) e = Some (w_sys w')" and store: "w_store w' = w_store w"
  shows "keys_inv st0 w'"
proof (cases e)
  case (AreaInput q)
  with st have sy: "w_sys w' = w_sys w\<lparr>scr := area_on_change q (scr (w_sys w))\<rparr>"
    by (simp split: if_splits)
  have "subseq (area_filter (areas (scr (w_sys w))) q) (st_areas st0)"
    using inv area_filter_subseq [of "st_areas st0" q] by (auto simp: keys_inv_def area_filter_def)
  with sy inv store show ?thesis by (simp add: keys_inv_def handler_simps)
next
  case (AreaClick a)
  with st have "w_sys w' = issue (w_sys w) (area_pick a (scr (w_sys w)))" by (simp split: if_splits)
  with inv store show ?thesis by (simp add: keys_inv_def handler_simps Let_def)
next
  case (ConnInput q)
  with st have "w_sys w' = issue (w_sys w) (conn_on_change q (scr (w_sys w)))" by (simp split: if_splits)
  with inv store show ?thesis
    by (simp add: keys_inv_def handler_simps Let_def split: if_splits option.splits)
next
  case (PersonClick p)
  with st have "w_sys w' = issue (w_sys w) (on_person_select (p_id p) (scr (w_sys w)))"
    by (simp split: if_splits)
  with inv store show ?thesis by (simp add: keys_inv_def handler_simps Let_def)
next
  case (Settle i r)
  with ue show ?thesis by simp
qed

lemma world_step_keys_inv:
  assumes inv: "keys_inv st0 w" and ws: "world_step w ev = Some w'"
  shows "keys_inv st0 w'"
  using ws
proof (cases rule: world_stepE)
  case (user e)
  with inv show ?thesis by (blast intro: user_keys_inv)
next
  case (settle i r s' rs)
  have "areas s' = [] \<or> areas s' = st_areas st0"
    using settle_sources [OF settle(1)] settle(2) inv
    by (auto simp: keys_inv_def store_answer_def get_areas_def list_or_empty_def split: request.splits)
  with settle_inputs_frame [OF settle(1)] settle(3,4) inv show ?thesis by (simp add: keys_inv_def)
qed

lemma world_reachable_keys_inv: "world_reachable st0 w \<Longrightarrow> keys_inv st0 w"
proof (induction rule: world_reachable.induct)
  case init
  show ?case by (simp add: keys_inv_def init_world_def init_sys_def init_screen_def)
next
  case (step w ev w')
  then show ?case by (blast intro: world_step_keys_inv)
qed

section \<open>In sequential use the connection suggestions are a subsequence of the area's persons\<close>

definition conn_keys_inv :: "world \<Rightarrow> bool" where
  "conn_keys_inv w \<longleftrightarrow>
     (selectedArea (scr (w_sys w)) \<noteq> [] \<longrightarrow>
        subseq (connectionSuggestions (scr (w_sys w))) (personsInArea (scr (w_sys w))))"

lemma person_filter_subseq: "subseq (person_filter xs q) xs"
  by (simp add: person_filter_def)

lemma settle_conn_suggestions:
  "settle rq r s = Some (s', rs) \<Longrightarrow> \<not> (\<exists>q. rq = RqSearch q) \<Longrightarrow>
   connectionSuggestions s' = connectionSuggestions s"
  by (erule settle.elims) (auto simp: handler_simps split: outcome.splits option.splits)

lemma answer_conn_keys_inv:
  assumes inv: "seq_inv st0 w" and ck: "conn_keys_inv w" and ws: "world_step w (Answer i) = Some w'"
  shows "conn_keys_inv w'"
proof -
  let ?p = "pending (w_sys w)" and ?s = "scr (w_sys w)"
  from ws obtain s' rs where i: "i < length ?p"
    and se: "settle (?p ! i) (Fulfilled (store_answer (w_store w) (?p ! i))) ?s = Some (s', rs)"
    and s': "scr (w_sys w') = s'"
    by (rule world_step_answerE)
  have sa: "selectedArea s' = selectedArea ?s" using settle_selection [OF se] by simp
  show ?thesis
  proof (cases "selectedArea ?s = []")
    case True
    with sa s' show ?thesis by (simp add: conn_keys_inv_def)
  next
    case False
    with inv consider
      (fetching) "?p = [RqPersons (selectedArea ?s)]" "connectionSuggestions ?s = []"
    | (loaded) "list_all (\<lambda>rq. \<not> fetches_persons rq) ?p"
      unfolding seq_inv_def by blast
    then show ?thesis
    proof cases
      case fetching
      with i have "\<not> (\<exists>q. ?p ! i = RqSearch q)" by simp
      from settle_conn_suggestions [OF se this] fetching s' show ?thesis
        by (simp add: conn_keys_inv_def)
    next
      case loaded
      then have "\<not> fetches_persons (?p ! i)" using i by (simp add: list_all_length)
      from settle_selection_frame [OF se this] ck sa s' show ?thesis
        by (simp add: conn_keys_inv_def)
    qed
  qed
qed

lemma user_conn_keys_inv:
  assumes ck: "conn_keys_inv w" and si: "screen_inv (w_sys w)"
    and ws: "world_step w (User e) = Some w'"
  shows "conn_keys_inv w'"
proof -
  let ?s = "scr (w_sys w)"
  from ws si obtain ue: "is_user_event e" and st: "step (w_sys w) e = Some (w_sys w')"
    by (rule world_step_userE)
  show ?thesis
  proof (cases e)
    case (AreaInput q)
    with st have "w_sys w' = w_sys w\<lparr>scr := area_on_change q ?s\<rparr>" by (simp split: if_splits)
    with ck show ?thesis by (simp add: conn_keys_inv_def handler_simps)
  next
    case (AreaClick a)
    with st have "w_sys w' = issue (w_sys w) (area_pick a ?s)" by (simp split: if_splits)
    then show ?thesis by (simp add: conn_keys_inv_def handler_simps Let_def)
  next
    case (ConnInput q)
    with st have "w_sys w' = issue (w_sys w) (conn_on_change q ?s)" by (simp split: if_splits)
    with person_filter_subseq [of "personsInArea ?s" q] show ?thesis
      by (auto simp: conn_keys_inv_def handler_simps Let_def split: option.splits)
  next
    case (PersonClick p)
    with st have "w_sys w' = issue (w_sys w) (on_person_select (p_id p) ?s)" by (simp split: if_splits)
    then show ?thesis by (simp add: conn_keys_inv_def handler_simps Let_def)
  next
    case (Settle i r)
    with ue show ?thesis by simp
  qed
qed

lemma seq_reachable_conn_keys_inv:
  assumes "seq_reachable st0 w"
  shows "conn_keys_inv w"
proof -
  have "(seq_inv st0 w \<and> conn_keys_inv w) \<and> pending (w_sys w) = []"
    using assms
  proof (rule seq_reachable_invariant [where P = "\<lambda>w. seq_inv st0 w \<and> conn_keys_inv w"])
    show "seq_inv st0 (init_world st0) \<and> conn_keys_inv (init_world st0)"
      by (simp add: seq_inv_def conn_keys_inv_def init_world_def init_sys_def init_screen_def)
  qed (blast intro: answer_seq_inv user_seq_inv answer_conn_keys_inv user_conn_keys_inv)+
  then show ?thesis by simp
qed

section \<open>Draining keeps the input texts\<close>

lemma settle_keeps_conn_query: "settle rq r s = Some (s', rs) \<Longrightarrow> connectionQuery s' = connectionQuery s"
  by (erule settle.elims) (auto simp: handler_simps split: outcome.splits option.splits)

lemma drain_keeps_texts:
  assumes d: "drain w = Some w'"
  shows "connectionQuery (scr (w_sys w')) = connectionQuery (scr (w_sys w)) \<and>
    selectedPersonName (scr (w_sys w')) = selectedPersonName (scr (w_sys w)) \<and>
    (loading (scr (w_sys w')) \<longrightarrow> loading (scr (w_sys w)))"
proof -
  let ?P = "\<lambda>x. connectionQuery (scr (w_sys x)) = connectionQuery (scr (w_sys w)) \<and>
    selectedPersonName (scr (w_sys x)) = selectedPersonName (scr (w_sys w)) \<and>
    (loading (scr (w_sys x)) \<longrightarrow> loading (scr (w_sys w)))"
  have "?P w' \<and> pending (w_sys w') = []"
  proof (rule drain_invariant [OF _ _ d])
    fix x x'
    assume px: "?P x" and ws: "world_step x (Answer 0) = Some x'"
    then obtain s' rs where se: "settle (pending (w_sys x) ! 0)
        (Fulfilled (store_answer (w_store x) (pending (w_sys x) ! 0))) (scr (w_sys x)) = Some (s', rs)"
      and s': "scr (w_sys x') = s'" by (blast elim: world_step_answerE)
    from settle_inputs_frame [OF se] settle_keeps_conn_query [OF se] px s' show "?P x'" by auto
  qed simp
  then show ?thesis by simp
qed

section \<open>Distinct keys\<close>

text \<open>C31: Under any answers, failures and orders, whenever the page shows its controls, the
  keys of the area suggestion list (the areas' ids) are distinct, provided the store's
  area ids are: React never sees two area items with the same key.\<close>

theorem area_keys_distinct:
  assumes r: "world_reachable st0 w" and ids: "distinct (map a_id (st_areas st0))"
    and v: "render_page fmt (scr (w_sys w)) = MainView v"
  shows "distinct (map fst (mv_area_items v))"
proof -
  from world_reachable_keys_inv [OF r]
  have "subseq (areaSuggestions (scr (w_sys w))) (st_areas st0)" by (simp add: keys_inv_def)
  from subseq_distinct_map [OF this ids] v show ?thesis
    by (auto simp: render_page_def comp_def split: if_splits)
qed

section \<open>What a person pick shows\<close>

text \<open>C32: In sequential use, for any store whose person ids are distinct, picking a person
  of the selected area's suggestions and waiting for the answers shows the page with the
  connection input holding that person's connection label (\<open>String(connectionNumber ??
  number ?? name ?? "")\<close>), the person field holding \<open>String(name || "")\<close>, and the
  records section rendering exactly that person's debit documents.\<close>

theorem sequential_person_click_page:
  assumes r: "seq_reachable st0 w" and ws: "world_step w (User (PersonClick p)) = Some w1"
    and d: "drain w1 = Some w2" and sa: "selectedArea (scr (w_sys w)) \<noteq> []"
    and uniq: "distinct (map p_id (st_persons st0))" and pid: "p_id p \<noteq> []"
  shows "\<exists>v. render_page fmt (scr (w_sys w2)) = MainView v \<and>
    mv_conn_value v = conn_label p \<and> mv_person_value v = name_label p \<and>
    mv_records v = records_view fmt (find_docs st0 (p_id p))"
proof -
  let ?s = "scr (w_sys w)"
  have si: "screen_inv (w_sys w)"
    using r by (blast dest: seq_world_reachable world_reachable_reachable reachable_inv)
  from ws si obtain st: "step (w_sys w) (PersonClick p) = Some (w_sys w1)"
    by (rule world_step_userE)
  then have nl: "\<not> loading ?s" and ps: "p \<in> set (connectionSuggestions ?s)"
    and sy: "w_sys w1 = issue (w_sys w) (on_person_select (p_id p) ?s)"
    by (simp_all split: if_splits)
  from seq_reachable_inv [OF r] sa
  have pia: "personsInArea ?s = get_persons_by_area st0 (selectedArea ?s)"
    and sub: "set (connectionSuggestions ?s) \<subseteq> set (personsInArea ?s)"
    unfolding seq_inv_def by auto
  have "distinct (map p_id (personsInArea ?s))"
    using uniq by (simp add: pia get_persons_by_area_def distinct_map_filter)
  with ps sub have found: "find (\<lambda>x. p_id x = p_id p) (personsInArea ?s) = Some p"
    by (blast intro: find_distinct_key)
  from sy found have texts1: "connectionQuery (scr (w_sys w1)) = conn_label p"
    "selectedPersonName (scr (w_sys w1)) = js_or (p_name p) (JStr [])"
    "loading (scr (w_sys w1)) = loading ?s"
    by (simp_all add: issue_def on_person_select_def Let_def)
  from drain_keeps_texts [OF d] texts1 nl
  have texts2: "connectionQuery (scr (w_sys w2)) = conn_label p"
    "selectedPersonName (scr (w_sys w2)) = js_or (p_name p) (JStr [])"
    "\<not> loading (scr (w_sys w2))" by simp_all
  from seq_person_click_view [OF r ws d pid]
  have "records (scr (w_sys w2)) = find_docs st0 (p_id p)"
    by (simp add: view_of_def screen_view_def)
  with texts2 show ?thesis
    by (simp add: render_page_def name_label_def input_value_defined)
qed

text \<open>C33: In sequential use, once an area is selected, the React keys of the connection
  suggestion list (the persons' ids) are distinct whenever the store's person ids are:
  the list is then a capped filter of the area's persons.\<close>

theorem sequential_conn_keys_distinct:
  assumes r: "seq_reachable st0 w" and uniq: "distinct (map p_id (st_persons st0))"
    and sa: "selectedArea (scr (w_sys w)) \<noteq> []"
    and v: "render_page fmt (scr (w_sys w)) = MainView v"
  shows "distinct (map ci_key (mv_conn_items v))"
proof -
  let ?s = "scr (w_sys w)"
  from seq_reachable_inv [OF r] sa
  have "personsInArea ?s = get_persons_by_area st0 (selectedArea ?s)"
    unfolding seq_inv_def by auto
  with uniq have "distinct (map p_id (personsInArea ?s))"
    by (simp add: get_persons_by_area_def distinct_map_filter)
  with seq_reachable_conn_keys_inv [OF r] sa
  have "distinct (map p_id (connectionSuggestions ?s))"
    unfolding conn_keys_inv_def by (blast intro: subseq_distinct_map)
  with v show ?thesis
    by (auto simp: render_page_def comp_def conn_item_of_def split: if_splits)
qed

section \<open>The mount effect, rendered\<close>

lemma next_answer_rejected: "next_answer fs = (if rejected_at fs 0 then Fail 0 else Answer 0)"
  by (cases fs rule: next_answer.cases) (auto simp: rejected_at_def)

lemma rejected_at_tl: "rejected_at (tl fs) n = rejected_at fs (Suc n)"
  by (cases fs) (auto simp: rejected_at_def)

text \<open>The mount effect settled under any failures: without a handle (a rejected
  \<open>initDB\<close> or an unavailable store) nothing changes; with one, the page leaves its
  loading state with the store's areas, or none when \<open>getAreas\<close> fails.\<close>

lemma fdrain_startup:
  "fdrain fs (init_world st0) =
     Some (if st_available st0 \<and> \<not> rejected_at fs 0 then
       \<lparr>w_sys = \<lparr>scr = init_screen\<lparr>db := init_db st0,
          areas := (if rejected_at fs (Suc 0) then [] else st_areas st0), loading := False\<rparr>,
          pending = []\<rparr>, w_store = st0\<rparr>
     else \<lparr>w_sys = \<lparr>scr = init_screen, pending = []\<rparr>, w_store = st0\<rparr>)"
  by (simp add: fdrain.simps next_answer_rejected rejected_at_tl init_world_def init_sys_def
      init_db_def store_answer_def handler_simps remove_nth_def get_areas_def list_or_empty_def
      store_effect_def init_screen_def)

text \<open>C36: For any store and any pattern of failures, the mount's requests settle, and
  the page then shows: the loading message for good when \<open>initDB\<close> is rejected or yields
  no handle; otherwise its controls, all empty, with no records message, and with the
  store's areas loaded unless \<open>getAreas\<close> failed, in which case none are.\<close>

theorem startup_page:
  "\<exists>w. fdrain fs (init_world st0) = Some w \<and> pending (w_sys w) = [] \<and>
     render_page fmt (scr (w_sys w)) =
       (if st_available st0 \<and> \<not> rejected_at fs 0 then MainView empty_main else LoadingView) \<and>
     areas (scr (w_sys w)) =
       (if st_available st0 \<and> \<not> rejected_at fs 0 \<and> \<not> rejected_at fs 1 then st_areas st0 else [])"
  using fdrain_startup [of fs st0]
  by (simp add: render_page_def empty_main_def init_screen_def records_view_def)

end
