(* ===== verification/Autocomplete.thy ===== *)
theory Autocomplete
  imports Page_Flow
begin

text \<open>
  What the two autocomplete inputs show, against the text typed into them.
  \<open>area_typing_inv\<close>: under any interleaving of answers and failures, the area list is
  empty or the capped filter of the loaded areas by the area text (lines 96-106).
  \<open>conn_typing_inv\<close>: in sequential use, even when requests fail, the connection list
  is empty, the in-area filter of the connection text (lines 144-150), or the store's
  free-text search answer for that text (lines 151-157). The unguarded interleavings break
  the second (\<open>stale_search_results\<close>, \<open>person_from_other_area\<close>), so it is stated
  for the sequential discipline of \<open>Failures\<close>, where every request is settled,
  answered or rejected, before the next input.
\<close>

section \<open>The area list follows the area text\<close>

text \<open>The area suggestions are empty or the capped filter of the loaded areas by the text in
  the area input. Only the area input's \<open>onChange\<close> fills the list, and the areas are
  loaded while the page still shows its loading message, when the list is empty.\<close>

definition area_typing_inv :: "sys \<Rightarrow> bool" where
  "area_typing_inv st \<longleftrightarrow>
     areaSuggestions (scr st) = [] \<or>
     (is_jstr (areaQuery (scr st)) \<and>
      areaSuggestions (scr st) = area_filter (areas (scr st)) (js_string (areaQuery (scr st))))"

lemma settle_areas_frame:
  assumes si: "screen_inv st" and i: "i < length (pending st)"
    and se: "settle (pending st ! i) r (scr st) = Some (s', rs)" and nl: "\<not> loading (scr st)"
  shows "areas s' = areas (scr st)"
proof -
  have "RqAreas \<notin> set (pending st)" using si nl by (auto simp: screen_inv_def)
  with nth_mem [OF i] have "pending st ! i \<noteq> RqAreas" by auto
  then consider "pending st ! i = RqConnect" | "\<not> is_setup (pending st ! i)"
    by (auto simp: is_setup_def)
  then show ?thesis
  proof cases
    case 1
    with se settle_connect [of r "scr st" s' rs] show ?thesis by auto
  next
    case 2
    from settle_other_frame [OF se this] show ?thesis by simp
  qed
qed

lemma step_area_typing_inv:
  assumes si: "screen_inv st" and inv: "area_typing_inv st" and st: "step st e = Some st'"
  shows "area_typing_inv st'"
proof (cases e)
  case (Settle i r)
  with st obtain s' rs where i: "i < length (pending st)"
    and se: "settle (pending st ! i) r (scr st) = Some (s', rs)" and s': "scr st' = s'"
    by (auto split: if_splits option.splits)
  have "\<not> loading (scr st)" if "areaSuggestions (scr st) \<noteq> []"
    using si that by (auto simp: screen_inv_def)
  with settle_areas_frame [OF si i se] settle_inputs_frame [OF se] inv s' show ?thesis
    by (auto simp: area_typing_inv_def)
qed (use inv st in \<open>auto simp: area_typing_inv_def handler_simps Let_def split: if_splits\<close>)

lemma reachable_area_typing_inv: "reachable st \<Longrightarrow> area_typing_inv st"
proof -
  assume "reachable st"
  then have "screen_inv st \<and> area_typing_inv st"
  proof (induction rule: reachable.induct)
    case init
    have "area_typing_inv init_sys" by (simp add: area_typing_inv_def init_sys_def init_screen_def)
    with screen_inv_init show ?case by simp
  next
    case (step st e st')
    then show ?case by (blast intro: step_inv step_area_typing_inv)
  qed
  then show ?thesis by simp
qed


text \<open>C34: Under any answers, failures and orders, whenever the page shows its controls,
  the area suggestion list is empty or lists exactly the first 20 loaded areas whose label
  starts with the text shown in the area input, up to case: the list never shows matches
  of an older text.\<close>

theorem area_list_matches_text:
  assumes r: "reachable st" and v: "render_page fmt (scr st) = MainView v"
  shows "mv_area_items v = [] \<or>
    mv_area_items v = map (\<lambda>a. (a_id a, react_text (a_name a)))
      (area_filter (areas (scr st)) (mv_area_value v))"
proof -
  have "is_jstr x \<Longrightarrow> input_value x = js_string x" for x by (cases x) simp_all
  with reachable_area_typing_inv [OF r] v show ?thesis
    by (auto simp: area_typing_inv_def render_page_def split: if_splits)
qed

theorem area_list_matches_text_witness:
  "\<exists>v. render_page plain_fmt (scr demo_area_typed) = MainView v \<and>
     mv_area_value v = ''No'' \<and> mv_area_items v = [(''a1'', ''North'')] \<and>
     (mv_area_items v = [] \<or> mv_area_items v = map (\<lambda>a. (a_id a, react_text (a_name a)))
        (area_filter (areas (scr demo_area_typed)) (mv_area_value v)))"
proof -
  obtain v where rv: "render_page plain_fmt (scr demo_area_typed) = MainView v"
    and vals: "mv_area_value v = ''No''" "mv_area_items v = [(''a1'', ''North'')]"
    by (simp add: eval_simps)
  from area_list_matches_text [OF demo_area_typed_reachable rv] rv vals show ?thesis by blast
qed

section \<open>The connection list follows the connection text\<close>

text \<open>What the connection list may show for the text in the connection input.\<close>

definition conn_shows :: "store \<Rightarrow> screen \<Rightarrow> bool" where
  "conn_shows st0 s \<longleftrightarrow>
     connectionSuggestions s = [] \<or>
     (selectedArea s \<noteq> [] \<and>
      connectionSuggestions s = person_filter (personsInArea s) (connectionQuery s)) \<or>
     (selectedArea s = [] \<and> connectionSuggestions s = search_persons st0 (connectionQuery s))"

text \<open>The invariant: the store's search and availability are the initial ones, the handle
  is the store's, an outstanding persons fetch belongs to a selected area and finds the list
  empty, an outstanding search is for the current text with no area selected, and the list
  shows what \<open>conn_shows\<close> allows unless the search for the current text is outstanding.\<close>

definition conn_typing_inv :: "store \<Rightarrow> world \<Rightarrow> bool" where
  "conn_typing_inv st0 w \<longleftrightarrow>
     st_search (w_store w) = st_search st0 \<and> st_available (w_store w) = st_available st0 \<and>
     (db (scr (w_sys w)) = None \<or> db (scr (w_sys w)) = init_db st0) \<and>
     (\<forall>a. RqPersons a \<in> set (pending (w_sys w)) \<longrightarrow>
        selectedArea (scr (w_sys w)) \<noteq> [] \<and> connectionSuggestions (scr (w_sys w)) = []) \<and>
     (\<forall>q. RqSearch q \<in> set (pending (w_sys w)) \<longrightarrow>
        q = connectionQuery (scr (w_sys w)) \<and> selectedArea (scr (w_sys w)) = []) \<and>
     (conn_shows st0 (scr (w_sys w)) \<or>
      RqSearch (connectionQuery (scr (w_sys w))) \<in> set (pending (w_sys w)))"

lemma st_search_store_effect [simp]: "st_search (store_effect rq st) = st_search st"
  and st_available_store_effect [simp]: "st_available (store_effect rq st) = st_available st"
  by (simp_all add: store_effect_def split: request.splits)

lemma store_fields_answers:
  assumes "st_search st = st_search st0" and "st_available st = st_available st0"
  shows "search_persons st = search_persons st0" and "init_db st = init_db st0"
  using assms by (simp_all add: search_persons_def init_db_def fun_eq_iff)

lemma next_answer_store:
  "world_step w (next_answer fs) = Some w' \<Longrightarrow>
   w_store w' = w_store w \<or> w_store w' = store_effect (pending (w_sys w) ! 0) (w_store w)"
  by (cases fs rule: next_answer.cases) (auto split: if_splits option.splits prod.splits simp del: step.simps)

lemma settle_db:
  "settle rq r s = Some (s', rs) \<Longrightarrow> r = Rejected \<or> r = Fulfilled (store_answer st rq) \<Longrightarrow>
   db s' = db s \<or> db s' = init_db st"
  by (erule settle.elims) (auto simp: handler_simps store_answer_def split: option.splits)

lemma settle_conn_frame:
  "settle rq r s = Some (s', rs) \<Longrightarrow> \<not> fetches_persons rq \<Longrightarrow>
   connectionSuggestions s' = connectionSuggestions s \<and> connectionQuery s' = connectionQuery s \<and>
   selectedArea s' = selectedArea s \<and> personsInArea s' = personsInArea s \<and>
   list_all (\<lambda>q. \<not> fetches_persons q) rs"
  using settle_selection_frame [of rq r s s' rs] settle_keeps_conn_query [of rq r s s' rs]
    settle_selection [of rq r s s' rs] by simp

lemma answer_conn_typing_inv:
  assumes inv: "conn_typing_inv st0 w" and ws: "world_step w (next_answer fs) = Some w'"
  shows "conn_typing_inv st0 w'"
proof -
  let ?p = "pending (w_sys w)" and ?s = "scr (w_sys w)"
  from ws obtain r s' rs where p0: "0 < length ?p"
    and r: "r = Rejected \<or> r = Fulfilled (store_answer (w_store w) (?p ! 0))"
    and se: "settle (?p ! 0) r ?s = Some (s', rs)"
    and s': "scr (w_sys w') = s'" and p': "pending (w_sys w') = remove_nth 0 ?p @ rs"
    by (rule next_answerE)
  have fields: "st_search (w_store w) = st_search st0" "st_available (w_store w) = st_available st0"
    using inv by (simp_all add: conn_typing_inv_def)
  note answers = store_fields_answers [OF fields]
  have store': "st_search (w_store w') = st_search st0 \<and> st_available (w_store w') = st_available st0"
    using next_answer_store [OF ws] fields by auto
  have db': "db s' = None \<or> db s' = init_db st0"
    using settle_db [OF se r] inv answers by (auto simp: conn_typing_inv_def)
  have rq: "?p ! 0 \<in> set ?p" using p0 by simp
  have old: "x \<in> set (remove_nth 0 ?p) \<Longrightarrow> x \<in> set ?p" for x
    using set_remove_nth_subset [of 0 ?p] by blast
  show ?thesis
  proof (cases "fetches_persons (?p ! 0)")
    case False
    from settle_conn_frame [OF se False]
    have fr: "connectionSuggestions s' = connectionSuggestions ?s" "connectionQuery s' = connectionQuery ?s"
      "selectedArea s' = selectedArea ?s" "personsInArea s' = personsInArea ?s"
      and rs: "list_all (\<lambda>q. \<not> fetches_persons q) rs" by simp_all
    have new: "x \<in> set (pending (w_sys w')) \<Longrightarrow> fetches_persons x \<Longrightarrow> x \<in> set ?p" for x
      using rs old by (auto simp: p' list_all_iff)
    have ne: "RqSearch (connectionQuery ?s) \<noteq> ?p ! 0"
      using False by (metis fetches_persons.simps(2))
    have "RqSearch (connectionQuery ?s) \<in> set ?p \<Longrightarrow>
        RqSearch (connectionQuery ?s) \<in> set (pending (w_sys w'))"
      using remove_nth_mem [OF p0 _ ne] by (simp add: p')
    with inv fr new store' db' s' show ?thesis
      unfolding conn_typing_inv_def conn_shows_def by (metis fetches_persons.simps(1,2))
  next
    case True
    then consider a where "?p ! 0 = RqPersons a" | q where "?p ! 0 = RqSearch q"
      by (cases "?p ! 0") simp_all
    then show ?thesis
    proof cases
      case (1 a)
      with inv rq have sel: "selectedArea ?s \<noteq> []" "connectionSuggestions ?s = []"
        by (auto simp: conn_typing_inv_def)
      from se 1 have s'_eq: "s' = area_select_after_fetch (case r of Rejected \<Rightarrow> Rejected
          | Fulfilled x \<Rightarrow> (case x of RPersons p \<Rightarrow> Fulfilled p | _ \<Rightarrow> Rejected)) ?s" and "rs = []"
        using r by (auto simp: store_answer_def)
      then have fr: "connectionSuggestions s' = []" "connectionQuery s' = connectionQuery ?s"
        "selectedArea s' = selectedArea ?s"
        using sel by (simp_all add: handler_simps split: outcome.splits response.splits)
      have "\<forall>q. RqSearch q \<notin> set ?p" using inv sel by (auto simp: conn_typing_inv_def)
      with inv fr store' db' s' p' \<open>rs = []\<close> old show ?thesis
        unfolding conn_typing_inv_def conn_shows_def by auto
    next
      case (2 q)
      with inv rq have q: "q = connectionQuery ?s" "selectedArea ?s = []"
        by (auto simp: conn_typing_inv_def)
      have "\<forall>a. RqPersons a \<notin> set ?p" using inv q by (auto simp: conn_typing_inv_def)
      moreover from se 2 r answers q have "rs = []" and "connectionQuery s' = connectionQuery ?s"
        and "selectedArea s' = selectedArea ?s"
        and "connectionSuggestions s' = [] \<or>
          connectionSuggestions s' = search_persons st0 (connectionQuery ?s)"
        by (auto simp: store_answer_def handler_simps list_or_empty_def)
      ultimately show ?thesis using inv store' db' s' p' old q
        unfolding conn_typing_inv_def conn_shows_def by auto
    qed
  qed
qed

lemma user_conn_typing_inv:
  assumes inv: "conn_typing_inv st0 w" and np: "pending (w_sys w) = []"
    and si: "screen_inv (w_sys w)" and ws: "world_step w (User e) = Some w'"
  shows "conn_typing_inv st0 w'"
proof -
  let ?s = "scr (w_sys w)"
  from ws si obtain ue: "is_user_event e" and st: "step (w_sys w) e = Some (w_sys w')"
    and store: "w_store w' = w_store w" and db: "db ?s \<noteq> None"
    by (rule world_step_userE)
  from inv np db have shows0: "conn_shows st0 ?s" and db0: "db ?s = init_db st0"
    by (simp_all add: conn_typing_inv_def)
  have frame: "st_search (w_store w') = st_search st0 \<and> st_available (w_store w') = st_available st0"
    using inv store by (simp add: conn_typing_inv_def)
  show ?thesis
  proof (cases e)
    case (AreaInput q)
    with st have "w_sys w' = w_sys w\<lparr>scr := area_on_change q ?s\<rparr>" by (simp split: if_splits)
    with inv np frame shows0 show ?thesis
      by (simp add: conn_typing_inv_def conn_shows_def handler_simps)
  next
    case (AreaClick a)
    with st have "w_sys w' = issue (w_sys w) (area_pick a ?s)" by (simp split: if_splits)
    with inv np frame show ?thesis
      by (simp add: conn_typing_inv_def conn_shows_def handler_simps Let_def)
  next
    case (ConnInput q)
    with st have sy: "w_sys w' = issue (w_sys w) (conn_on_change q ?s)" by (simp split: if_splits)
    show ?thesis
    proof (cases "q \<noteq> [] \<and> selectedArea ?s = [] \<and> \<not> (st_search st0 \<noteq> None)")
      case True
      then have "search_persons st0 x = []" for x by (simp add: search_persons_def)
      with shows0 True have "connectionSuggestions ?s = []" by (auto simp: conn_shows_def)
      with sy inv np frame db0 True show ?thesis
        by (simp add: conn_typing_inv_def conn_shows_def handler_simps Let_def init_db_def
            split: if_splits)
    next
      case False
      with sy inv np frame db db0 show ?thesis
        by (auto simp: conn_typing_inv_def conn_shows_def handler_simps Let_def init_db_def
            split: if_splits)
    qed
  next
    case (PersonClick p)
    with st have "w_sys w' = issue (w_sys w) (on_person_select (p_id p) ?s)" by (simp split: if_splits)
    with inv np frame show ?thesis
      by (simp add: conn_typing_inv_def conn_shows_def handler_simps Let_def)
  next
    case (Settle i r)
    with ue show ?thesis by simp
  qed
qed

lemma screen_inv_world_step:
  "screen_inv (w_sys w) \<Longrightarrow> world_step w ev = Some w' \<Longrightarrow> screen_inv (w_sys w')"
  by (blast dest: world_step_screen_step intro: step_inv)

lemma seqf_conn_typing_inv:
  assumes "seqf_reachable st0 w"
  shows "conn_typing_inv st0 w \<and> pending (w_sys w) = []"
proof -
  have "(screen_inv (w_sys w) \<and> conn_typing_inv st0 w) \<and> pending (w_sys w) = []"
    using assms
  proof (rule seqf_reachable_invariant [where P = "\<lambda>w. screen_inv (w_sys w) \<and> conn_typing_inv st0 w"])
    show "screen_inv (w_sys (init_world st0)) \<and> conn_typing_inv st0 (init_world st0)"
      using screen_inv_init
      by (simp add: conn_typing_inv_def conn_shows_def init_world_def init_sys_def init_screen_def)
  qed (blast intro: screen_inv_world_step answer_conn_typing_inv user_conn_typing_inv)+
  then show ?thesis by simp
qed

text \<open>C35: In sequential use, even when any of the store's requests fail, whenever the page
  shows its controls the connection suggestion list is empty, or the first 20 persons of
  the area matching the text in the connection input when an area is selected, or the
  store's free-text search answer for exactly that text when none is: the list never
  belongs to an older text or to a previous area's search.\<close>

theorem seqf_conn_list_matches_text:
  assumes r: "seqf_reachable st0 w" and v: "render_page fmt (scr (w_sys w)) = MainView v"
  shows "mv_conn_items v = [] \<or>
    (selectedArea (scr (w_sys w)) \<noteq> [] \<and>
     mv_conn_items v = map conn_item_of (person_filter (personsInArea (scr (w_sys w))) (mv_conn_value v))) \<or>
    (selectedArea (scr (w_sys w)) = [] \<and>
     mv_conn_items v = map conn_item_of (search_persons st0 (mv_conn_value v)))"
proof -
  from seqf_conn_typing_inv [OF r] have "conn_shows st0 (scr (w_sys w))"
    by (auto simp: conn_typing_inv_def)
  with v show ?thesis
    by (auto simp: conn_shows_def render_page_def split: if_splits)
qed

end
