(* ===== verification/Spec2Isabelle.thy ===== *)
theory Spec2Isabelle
  imports Environment Render Sequential Refinement Failures Page Navigation Page_Flow Autocomplete
begin

text \<open>
  \<^bold>\<open>A verification model of the Report Menu screen.\<close>
  The repository's source is one React page, src/src/app/ReportMenu/page.tsx
  (\<open>ReportMenuPage\<close>). It is a read-only report over a local store. The user picks an
  area from an autocomplete list, then a person of that area from a second autocomplete
  list, and the page lists that person's debit records. The page talks to a data-access
  service (\<open>../services/db\<close>, not part of the sources) through asynchronous calls,
  and it neither orders nor cancels them.

  \<^bold>\<open>Theories, in import order.\<close>
  \<^item> \<open>Prelude\<close>: the theorem collections and the shared list facts.
    \<open>handler_simps\<close> unfolds the handlers, \<open>js_simps\<close> the JavaScript primitives,
    and \<open>eval_simps\<close> evaluates the model on concrete inputs. The list facts cover
    capped filters (\<open>take n (filter P xs)\<close>, which is \<open>filter(..).slice(0, n)\<close>)
    and removing a list element by position.
  \<^item> \<open>JsValue\<close>: the JavaScript the page applies to its untyped documents.
    \<^item> Values are \<open>jsval\<close>.
    \<^item> Truthiness and \<open>||\<close> are \<open>js_truthy\<close> and \<open>js_or\<close>; \<open>??\<close> is
      \<open>js_coalesce\<close>.
    \<^item> \<open>String(..)\<close> is \<open>js_string\<close>, and React's rendering of a child expression
      is \<open>react_text\<close>.
    \<^item> \<open>toLowerCase\<close> is \<open>js_lower\<close>, and \<open>startsWith\<close> is
      \<open>starts_with\<close>.
    \<^item> Decimal printing of integers is \<open>nat_digits\<close>, with its reading back
      \<open>digits_value\<close>.
  \<^item> \<open>Entities\<close>: the documents as the page reads them (\<open>area\<close>, \<open>person\<close>,
    \<open>entry\<close>), and the label helpers. \<open>conn_value\<close> and \<open>conn_label\<close> model the
    fallback chain \<open>connectionNumber ?? number ?? name ?? ""\<close>, which page.tsx repeats
    at lines 59, 147 and 168. \<open>name_label\<close> and \<open>area_label\<close> model
    \<open>String(name || "")\<close>.
  \<^item> \<open>Search\<close>: the two autocomplete filters. \<open>area_filter\<close> is at lines 103-105
    and \<open>person_filter\<close> at lines 144-150. Their specification is \<open>ci_prefix\<close>:
    the lower-cased query is a prefix of the lower-cased label.
  \<^item> \<open>Store\<close>: the data-access service, modelled from the contract in the spec
    because its code is not under src/.
    \<^item> \<open>init_db\<close> gives the connection handle, with or without free-text search.
    \<^item> \<open>get_areas\<close> and \<open>get_persons_by_area\<close> read areas and persons.
    \<^item> \<open>search_persons\<close> is the free-text search, a parameter of the store.
    \<^item> \<open>create_index\<close> is idempotent.
    \<^item> \<open>find_docs\<close> applies the selector \<open>debit_selector\<close> of line 67.
  \<^item> \<open>Screen\<close>: the controller as a state machine.
    \<^item> The record \<open>screen\<close> holds the page's \<open>useState\<close> fields (lines 7-20).
    \<^item> Each handler is a definition up to its first \<open>await\<close>:
      \<open>on_area_select\<close>, \<open>on_person_select\<close>, \<open>load_records_for_person\<close>,
      \<open>area_on_change\<close>, \<open>area_pick\<close> and \<open>conn_on_change\<close>.
    \<^item> The code after each \<open>await\<close> is a continuation: \<open>setup_after_connect\<close>,
      \<open>setup_after_areas\<close>, \<open>area_select_after_fetch\<close>,
      \<open>conn_search_after\<close>, \<open>records_after_index\<close> and \<open>records_after_find\<close>.
      It runs on the state current when its request settles, as React's setters do.
      \<open>settle\<close> dispatches an outstanding \<open>request\<close> to its continuation.
    \<^item> \<open>sys\<close> pairs the screen with the list of outstanding requests.
    \<^item> \<open>step\<close> takes one event: a user input, or the settling of any one outstanding
      request. A user input is enabled only when the page renders its control: nothing
      while loading, and a suggestion only while it is listed.
    \<^item> \<open>run\<close> runs a list of events.
    \<^item> \<open>reachable\<close> is the set of states reachable from the mount
      (\<open>init_sys\<close>).
  \<^item> \<open>Screen_Inv\<close>: the invariant \<open>screen_inv\<close> of the reachable states, proved one
    event at a time.
  \<^item> \<open>Render\<close>: the records table (lines 193-216). \<open>to_fixed2\<close> models
    \<open>Number(amount).toFixed(2)\<close> on the amount's exact value, both branches of
    ECMAScript's algorithm. \<open>records_view\<close> and \<open>render_row\<close> model the rows.
    \<open>host_fmt\<close> holds the two host functions the table calls: \<open>toLocaleString\<close> on
    \<open>createdAt\<close> and \<open>Number::toString\<close> for amounts of \<open>10^21\<close> and more.
  \<^item> \<open>Environment\<close>: the screen composed with a store (\<open>world_step\<close>). A fulfilled
    request gets the store's contractual answer (\<open>store_answer\<close>). Any request may
    fail instead, and the requests settle in any order. \<open>world_reachable\<close> is the set
    of reachable states. Every composed step is a screen step, so the screen's invariants
    carry over.
  \<^item> \<open>Sequential\<close>: the page used one input at a time against a store that answers
    every request before the next input. \<open>drain\<close> answers the outstanding requests,
    oldest first, until none is left. \<open>seq_run\<close> runs a list of inputs, draining
    after each. \<open>seq_reachable\<close> is the set of states reached this way.
  \<^item> \<open>Refinement\<close>: the abstract report specification. \<open>report_view\<close> is the
    selected area, the selected person and the listed records; \<open>report_spec\<close> is one
    user action on it; \<open>view_of\<close> reads the view off the page.
  \<^item> \<open>Failures\<close>: sequential use where any request may be rejected.
    \<open>fdrain fs\<close> settles the outstanding requests oldest first and rejects the
    \<open>n\<close>-th when the \<open>n\<close>-th flag of \<open>fs\<close> is set; \<open>seqf_reachable\<close>
    and \<open>seqf_run\<close> are as in \<open>Sequential\<close>. \<open>report_rel\<close> is the
    relational report specification, where a person pick may keep the records only when
    one of its requests was rejected.
  \<^item> \<open>Page\<close>: what the page renders (lines 74-219). \<open>render_page\<close> gives the
    loading message, or a \<open>main_view\<close>: the input values (\<open>input_value\<close>, React's
    controlled-input value), the area items (key and label), the connection items
    (\<open>conn_item_of\<close>: key, label and the name printed after the dash), the person field
    and the records section. \<open>inputs_inv\<close> and \<open>typed_inv\<close> are the state facts
    the rendering relies on.
  \<^item> \<open>Navigation\<close>: which reports the user can reach. \<open>area_source_inv\<close>
    records where a selected area can come from; \<open>crowded_store\<close> is a store with
    twenty areas North 1 .. North 20 before the area North.
  \<^item> \<open>Page_Flow\<close>: the rendering composed with the store and the user's steps.
    \<open>keys_inv\<close> states that the store's areas never change, the loaded area list is
    empty or the store's, and the area suggestions are a subsequence of the store's areas.
    \<open>conn_keys_inv\<close> states that, with an area selected, the connection
    suggestions are a subsequence of the area's persons; it holds in sequential use.
    \<open>drain_keeps_texts\<close> shows that answers never touch the connection text or the
    selected person's name. \<open>fdrain_startup\<close> settles the mount effect under any
    failure flags (\<open>rejected_at\<close>).
  \<^item> \<open>Autocomplete\<close>: what the two autocomplete inputs list against their text.
    \<open>area_typing_inv\<close> states that the area suggestions are empty or the filter of
    the loaded areas by the area text; it holds under any interleaving.
    \<open>conn_shows\<close> is what the connection list may show for the connection text,
    and \<open>conn_typing_inv\<close> is the invariant of sequential use with failures that
    carries it: an outstanding search is for the current text, an outstanding persons
    fetch finds the list empty.
  \<^item> This theory: the scenarios of the specification against a concrete store, and the
    properties that span the screen, the store and the rendering.

  \<^bold>\<open>What is proved.\<close>
  \<^item> Filters (\<open>Search\<close>).
    \<^item> Each filter equals its specification.
    \<^item> Each result is sound, at most 20 long, and in list order.
    \<^item> Each filter is complete up to the cap.
  \<^item> Handlers (\<open>Screen\<close>), on every branch.
    \<^item> Picking an area resets the selected person, its name, the records, and the
      connection text and suggestions.
    \<^item> The connection input filters in-area when an area is selected. Otherwise it
      delegates to the store's search, whose answer replaces the suggestions unfiltered.
    \<^item> Picking a person sets the search text to its connection label.
    \<^item> A failed area fetch at start-up still ends the loading state.
  \<^item> Reachable states (\<open>Screen_Inv\<close>).
    \<^item> Area suggestions are always loaded areas, at most 20.
    \<^item> The page leaves its loading state only with a connection.
    \<^item> Without a connection the page is frozen for good. The spec says the loading flag
      is cleared unconditionally.
  \<^item> Sequential use (\<open>Sequential\<close>).
    \<^item> Draining always ends with no request left (\<open>drain\<close> is total).
    \<^item> Once an area is selected, the page holds exactly its persons, suggests only
      persons of it, and any selected person belongs to it. This is the selection
      invariant of the spec, which the unguarded interleavings break.
    \<^item> For any store, once a person is selected the table lists exactly the store's
      debit documents of that person (\<open>records_inv\<close>).
    \<^item> Refinement (\<open>Refinement\<close>): for any store, each accepted input followed by
      draining is one \<open>report_spec\<close> step on the view.
  \<^item> Rendering the page (\<open>Page\<close>).
    \<^item> The area and person inputs always get a defined value, so they stay controlled;
      they hold strings whenever the store's names are strings, under any interleaving.
    \<^item> The label of a connection suggestion equals the text clicking it puts in the
      input, unless the value is a boolean, and the person field then shows the name
      printed after the dash.
    \<^item> In sequential use, once a person is selected, the page renders exactly the
      rows of that person's debit documents.
  \<^item> Page and store together (\<open>Page_Flow\<close>).
    \<^item> Under any answers, failures and orders, the React keys of the area suggestion
      list are distinct whenever the store's area ids are.
    \<^item> In sequential use with an area selected, the React keys of the connection
      suggestion list are distinct whenever the store's person ids are.
    \<^item> In sequential use with distinct person ids, picking a suggested person of the
      selected area shows its connection label in the connection input, its name in the
      person field, and its debit documents in the table.
    \<^item> For any store and any failures, the mount settles: the page is stuck loading
      when \<open>initDB\<close> fails or gives no handle, and otherwise shows empty controls
      with the store's areas, or none when \<open>getAreas\<close> fails.
  \<^item> What typing shows (\<open>Autocomplete\<close>).
    \<^item> Under any interleaving, the area list shown is empty or exactly the filter of
      the loaded areas by the text shown in the area input.
    \<^item> In sequential use, even with failures, the connection list is empty, the in-area
      filter of the connection text, or the search answer for exactly that text. This is
      the positive counterpart of the races below.
  \<^item> Reaching reports (\<open>Search\<close>, \<open>Navigation\<close>).
    \<^item> Typing an area's label is the best query for it, and a person's connection
      label or name is the best query for the person.
    \<^item> For any available store, a person's report is reached by typing and picking,
      whenever the area and the person are among the first 20 matches of their labels.
    \<^item> The converse fails: behind 20 areas whose labels extend its own, an area is
      never selected, under any interleaving.
  \<^item> Failures (\<open>Failures\<close>).
    \<^item> With failures, each input followed by settling is a \<open>report_rel\<close> step: the
      abstract report step, except that a person pick may keep the records, and only when
      one of its requests was rejected.
    \<^item> Here: one failed persons fetch breaks the selection invariant, even in
      sequential use.
  \<^item> Rendering (\<open>Render\<close>): below \<open>10^21\<close> in magnitude, the amount text reads
    back as the amount rounded to the cent, within half a cent of it.
  \<^item> Here.
    \<^item> The spec's report flow shows exactly the selected person's debit records, as
      \<open>$100.50\<close> and \<open>$75.00\<close>.
    \<^item> Under any answers, failures and orders, only debit documents of the store are
      listed.
    \<^item> Three interleavings that the page does not guard against are reachable. Records
      of a previous selection appear after re-selecting an area. A person of another area
      can be selected. Search results for an earlier text can replace those for the
      current one.

  \<^bold>\<open>Choices and limits.\<close>
  \<^item> No bound or fuel is needed. Every handler is straight-line code. The filters are
    structural recursions over finite lists. Non-termination appears only as a request
    that is never settled, which the step relation allows.
  \<^item> \<open>drain\<close> is a \<open>function\<close> whose termination is proved with the measure
    \<open>pending_weight\<close>: connect and index requests weigh 2, the others 1. Each
    answer removes its request and adds follow-ups of smaller total weight. The same
    measure proves \<open>fdrain\<close> terminating, since a rejection adds no follow-up.
  \<^item> Strings are lists of Latin-1 code units. On them, \<open>js_lower\<close> is exactly
    JavaScript's \<open>toLowerCase\<close>; characters beyond U+00FF are not modelled. For this
    reason the mis-encoded em dash of the suggestion label (line 175) is not modelled.
  \<^item> Numbers in person fields are integers printed in fixed notation.
  \<^item> Amounts are exact rationals, so the \<open>NaN\<close> of a non-numeric amount does not
    occur. Below \<open>10^21\<close> \<open>toFixed\<close> prints fixed notation, which is modelled
    digit by digit. From \<open>10^21\<close> on it prints the sign and \<open>Number::toString\<close> of
    the magnitude; that printing is the host function \<open>fmt_number\<close>, which is why the
    amount theorems are stated below \<open>10^21\<close>.
  \<^item> The locale formatting of \<open>createdAt\<close> is the host function \<open>fmt_locale\<close>.
  \<^item> The service's free-text search is a parameter of the store.
  \<^item> The styling is not modelled: Tailwind classes, headings, labels and placeholders
    are fixed text with no behaviour. The mis-encoded dash between a suggestion's label and
    its name is made of code units beyond Latin-1; \<open>conn_item\<close> keeps label and name
    apart instead of spelling it.
  \<^item> A \<open>null\<close> or \<open>undefined\<close> input value would make React's input uncontrolled;
    \<open>input_value\<close> shows the empty text there, and \<open>inputs_controlled\<close> shows it never happens.
  \<^item> The connection list's React keys are not claimed without a selected area: the list
    is then the service's search answer, which the page does not check, and under
    unguarded interleavings a late search answer can replace an in-area list.

  \<^bold>\<open>Not modelled.\<close>
  \<^item> The code of \<open>../services/db\<close>: it is not under src/. \<open>Store\<close> models the
    contract the spec gives it, and every proof holds for any store of that contract.
  \<^item> Styling and fixed markup (Tailwind classes, headings, labels, placeholders): they
    have no behaviour.
  \<^item> The \<open>console.warn\<close> calls of the error paths: they change no state.
  \<^item> React's scheduling of renders: a setter is modelled as the update it makes where it
    runs. After an \<open>await\<close> the code reads only the ids it was called with, which the
    request carries, and the handle, which never changes once set; it writes through
    setters only. So batching does not change the reachable screens.
  \<^item> Every line of page.tsx with behaviour is mapped to a definition; what remains
    unmapped is the imports, the directive and the function's braces.
\<close>

section \<open>A store for the scenarios\<close>

definition demo_south :: area where
  "demo_south = \<lparr>a_id = ''a2'', a_name = JStr ''South''\<rparr>"

definition demo_debit_jan :: entry where
  "demo_debit_jan = \<lparr>r_id = ''r1'', r_type = JStr ''debit'', personId = JStr ''p1'',
                      month = JStr ''2024-01'', amount = 201 / 2, createdAt = JUndefined\<rparr>"

definition demo_debit_feb :: entry where
  "demo_debit_feb = \<lparr>r_id = ''r2'', r_type = JStr ''debit'', personId = JStr ''p1'',
                      month = JStr ''2024-02'', amount = 75, createdAt = JUndefined\<rparr>"

definition demo_credit :: entry where
  "demo_credit = \<lparr>r_id = ''r3'', r_type = JStr ''credit'', personId = JStr ''p1'',
                   month = JStr ''2024-02'', amount = 30, createdAt = JUndefined\<rparr>"

text \<open>Two areas, Jane (connection number 12345) and Bob in the first, two debit records and
  one credit record of Jane, and a free-text search by name prefix.\<close>

definition demo_store :: store where
  "demo_store =
     \<lparr>st_available = True, st_areas = [demo_north, demo_south], st_persons = [demo_jane, demo_bob],
      st_docs = [demo_debit_jan, demo_credit, demo_debit_feb], st_indexes = [],
      st_search = Some (\<lambda>q. filter (\<lambda>p. ci_prefix q (name_label p)) [demo_jane, demo_bob])\<rparr>"

text \<open>The report flow of the specification, each request answered as soon as it is made:
  start, type ``No'', pick North, type ``12'', pick Jane.\<close>

definition report_session :: "env_event list" where
  "report_session =
     [Answer 0, Answer 0, User (AreaInput ''No''), User (AreaClick demo_north), Answer 0,
      User (ConnInput ''12''), User (PersonClick demo_jane), Answer 0, Answer 0]"

declare demo_south_def [eval_simps] demo_debit_jan_def [eval_simps] demo_debit_feb_def [eval_simps]
  demo_credit_def [eval_simps] demo_store_def [eval_simps] report_session_def [eval_simps]

section \<open>The report\<close>

text \<open>The report flow of the specification: after picking Jane, whose connection number is
  12345, the connection text is ``12345'' and the table lists exactly Jane's two debit
  records (the credit record is not shown), in store order, with the amounts
  \<open>$100.50\<close> and \<open>$75.00\<close> and no creation time.\<close>

theorem report_scenario:
  "\<exists>w. world_run (init_world demo_store) report_session = Some w \<and>
       connectionQuery (scr (w_sys w)) = ''12345'' \<and> selectedPersonName (scr (w_sys w)) = JStr ''Jane Doe'' \<and>
       records (scr (w_sys w)) = [demo_debit_jan, demo_debit_feb] \<and>
       records_view fmt (records (scr (w_sys w))) =
         RecordRows [(''2024-01'', ''$100.50'', ''-''), (''2024-02'', ''$75.00'', ''-'')]"
  by (simp add: eval_simps)

text \<open>C4: Whatever the store answers and whichever requests fail, in whatever order, every
  record the page lists is a document of the store of type \<open>debit\<close>.\<close>

theorem shown_records_are_debits:
  "world_reachable st0 w \<Longrightarrow> r \<in> set (records (scr (w_sys w))) \<Longrightarrow>
   r \<in> set (st_docs st0) \<and> r_type r = JStr ''debit''"
  using world_reachable_records [of st0 w] world_reachable_docs [of st0 w]
  by (auto simp: records_from_store_def)

section \<open>Interleavings the page does not guard against\<close>

text \<open>C11: Re-selecting an area is meant to clear the records, but a record query still
  outstanding from the previous selection lands afterwards: the page then lists Jane's
  records while no person is selected.\<close>

theorem stale_records_after_area_change:
  "\<exists>w. world_reachable demo_store w \<and> selectedPersonId (scr (w_sys w)) = [] \<and>
       selectedArea (scr (w_sys w)) = ''a1'' \<and> records (scr (w_sys w)) = [demo_debit_jan, demo_debit_feb]"
proof -
  have "\<exists>w. world_run (init_world demo_store)
      [Answer 0, Answer 0, User (AreaInput ''No''), User (AreaClick demo_north), Answer 0,
       User (ConnInput ''12''), User (PersonClick demo_jane), Answer 0,
       User (AreaInput ''No''), User (AreaClick demo_north), Answer 0] = Some w \<and>
       selectedPersonId (scr (w_sys w)) = [] \<and> selectedArea (scr (w_sys w)) = ''a1'' \<and>
       records (scr (w_sys w)) = [demo_debit_jan, demo_debit_feb]"
    by (simp add: eval_simps)
  then show ?thesis by (blast intro: world_run_reachable world_reachable.init)
qed

text \<open>C12: The page can select a person of another area than the selected one: after picking a
  second area, the connection filter still searches the first area's persons until the
  second area's persons arrive, and a click on one of them selects it.\<close>

theorem person_from_other_area:
  "\<exists>w. world_reachable demo_store w \<and> selectedArea (scr (w_sys w)) = ''a2'' \<and>
       selectedPersonId (scr (w_sys w)) = p_id demo_jane \<and> areaId demo_jane \<noteq> ''a2''"
proof -
  have "\<exists>w. world_run (init_world demo_store)
      [Answer 0, Answer 0, User (AreaInput ''No''), User (AreaClick demo_north), Answer 0,
       User (AreaInput ''So''), User (AreaClick demo_south), User (ConnInput ''12''),
       User (PersonClick demo_jane)] = Some w \<and>
       selectedArea (scr (w_sys w)) = ''a2'' \<and> selectedPersonId (scr (w_sys w)) = p_id demo_jane"
    by (simp add: eval_simps)
  moreover have "areaId demo_jane \<noteq> ''a2''" by (simp add: eval_simps)
  ultimately show ?thesis by (blast intro: world_run_reachable world_reachable.init)
qed

text \<open>C13: Search answers are applied in the order they arrive: when the answer for an earlier
  text arrives last, the suggestions are the results for that earlier text, not for the
  text in the input.\<close>

theorem stale_search_results:
  "\<exists>w. world_reachable demo_store w \<and> connectionQuery (scr (w_sys w)) = ''B'' \<and>
       connectionSuggestions (scr (w_sys w)) = search_persons demo_store ''J'' \<and>
       search_persons demo_store ''J'' \<noteq> search_persons demo_store ''B''"
proof -
  have "\<exists>w. world_run (init_world demo_store)
      [Answer 0, Answer 0, User (ConnInput ''J''), User (ConnInput ''B''), Answer 1, Answer 0] = Some w \<and>
       connectionQuery (scr (w_sys w)) = ''B'' \<and>
       connectionSuggestions (scr (w_sys w)) = search_persons demo_store ''J''"
    by (simp add: eval_simps)
  moreover have "search_persons demo_store ''J'' \<noteq> search_persons demo_store ''B''"
    by (simp add: eval_simps)
  ultimately show ?thesis by (blast intro: world_run_reachable world_reachable.init)
qed

section \<open>A failure in sequential use\<close>

text \<open>C14: Even when the user waits for every answer, one failed persons fetch breaks the
  selection invariant of the specification: after picking area a2, whose persons fail to
  load, the connection filter still searches the persons of a1, and Jane, a person of a1,
  becomes the selected person while a2 is the selected area.\<close>

theorem failed_person_fetch_breaks_selection:
  "\<exists>w. seqf_reachable demo_store w \<and> selectedArea (scr (w_sys w)) = ''a2'' \<and>
     selectedPersonId (scr (w_sys w)) = ''p1'' \<and>
     ''p1'' \<notin> set (map p_id (get_persons_by_area demo_store ''a2''))"
proof -
  have "\<exists>w0 w. fdrain [] (init_world demo_store) = Some w0 \<and>
      seqf_run w0 [(AreaInput ''No'', []), (AreaClick demo_north, []), (AreaInput ''So'', []),
                   (AreaClick demo_south, [True]), (ConnInput ''12'', []), (PersonClick demo_jane, [])]
        = Some w \<and>
      selectedArea (scr (w_sys w)) = ''a2'' \<and> selectedPersonId (scr (w_sys w)) = ''p1''"
    by (simp add: eval_simps fdrain.simps)
  then obtain w0 w where d: "fdrain [] (init_world demo_store) = Some w0"
    and sr: "seqf_run w0 [(AreaInput ''No'', []), (AreaClick demo_north, []), (AreaInput ''So'', []),
                   (AreaClick demo_south, [True]), (ConnInput ''12'', []), (PersonClick demo_jane, [])]
        = Some w"
    and ab: "selectedArea (scr (w_sys w)) = ''a2'' \<and> selectedPersonId (scr (w_sys w)) = ''p1''"
    by blast
  have "seqf_reachable demo_store w"
    by (rule seqf_run_reachable [OF seqf_reachable.start [OF d] sr])
  moreover have "''p1'' \<notin> set (map p_id (get_persons_by_area demo_store ''a2''))"
    by (simp add: eval_simps)
  ultimately show ?thesis using ab by blast
qed

section \<open>Witnesses\<close>

theorem shown_records_are_debits_witness:
  "\<exists>w. world_reachable demo_store w \<and> demo_debit_jan \<in> set (records (scr (w_sys w))) \<and>
       demo_debit_jan \<in> set (st_docs demo_store) \<and> r_type demo_debit_jan = JStr ''debit''"
proof -
  have "\<exists>w. world_run (init_world demo_store) report_session = Some w \<and>
            demo_debit_jan \<in> set (records (scr (w_sys w)))"
    by (simp add: eval_simps)
  then obtain w where r: "world_run (init_world demo_store) report_session = Some w"
    and m: "demo_debit_jan \<in> set (records (scr (w_sys w)))" by blast
  have wr: "world_reachable demo_store w"
    by (rule world_run_reachable [OF world_reachable.init r])
  from shown_records_are_debits [OF wr m] wr m show ?thesis by blast
qed

lemma demo_seq_session:
  "\<exists>w. seq_reachable demo_store w \<and> selectedArea (scr (w_sys w)) = ''a1'' \<and>
     selectedPersonId (scr (w_sys w)) = ''p1''"
proof -
  have "\<exists>w0 w. drain (init_world demo_store) = Some w0 \<and>
      seq_run w0 [AreaInput ''No'', AreaClick demo_north, ConnInput ''12'', PersonClick demo_jane] = Some w \<and>
      selectedArea (scr (w_sys w)) = ''a1'' \<and> selectedPersonId (scr (w_sys w)) = ''p1''"
    by (simp add: eval_simps drain.simps)
  then obtain w0 w where d: "drain (init_world demo_store) = Some w0"
    and sr: "seq_run w0 [AreaInput ''No'', AreaClick demo_north, ConnInput ''12'', PersonClick demo_jane] = Some w"
    and ab: "selectedArea (scr (w_sys w)) = ''a1'' \<and> selectedPersonId (scr (w_sys w)) = ''p1''"
    by blast
  have "seq_reachable demo_store w"
    by (rule seq_run_reachable [OF seq_reachable.start [OF d] sr])
  with ab show ?thesis by blast
qed

theorem sequential_selection_in_area_witness:
  "\<exists>w. seq_reachable demo_store w \<and> selectedArea (scr (w_sys w)) = ''a1'' \<and>
     selectedPersonId (scr (w_sys w)) = ''p1'' \<and>
     personsInArea (scr (w_sys w)) = get_persons_by_area demo_store ''a1'' \<and>
     (\<exists>p\<in>set (st_persons demo_store). p_id p = ''p1'' \<and> areaId p = ''a1'')"
proof -
  obtain w where reach: "seq_reachable demo_store w" and a: "selectedArea (scr (w_sys w)) = ''a1''"
    and b: "selectedPersonId (scr (w_sys w)) = ''p1''"
    using demo_seq_session by blast
  from sequential_selection_in_area [OF reach] a b
  have "personsInArea (scr (w_sys w)) = get_persons_by_area demo_store ''a1'' \<and>
      (\<exists>p\<in>set (st_persons demo_store). p_id p = ''p1'' \<and> areaId p = ''a1'')"
    by simp
  with reach a b show ?thesis by blast
qed

theorem sequential_records_of_selected_witness:
  "\<exists>w. seq_reachable demo_store w \<and> selectedPersonId (scr (w_sys w)) = ''p1'' \<and>
     records (scr (w_sys w)) = [demo_debit_jan, demo_debit_feb]"
proof -
  obtain w where reach: "seq_reachable demo_store w" and b: "selectedPersonId (scr (w_sys w)) = ''p1''"
    using demo_seq_session by blast
  from sequential_records_of_selected [OF reach] b
  have "records (scr (w_sys w)) =
      filter (\<lambda>d. r_type d = JStr ''debit'' \<and> personId d = JStr ''p1'') (st_docs demo_store)"
    by simp
  then have "records (scr (w_sys w)) = [demo_debit_jan, demo_debit_feb]" by (simp add: eval_simps)
  with reach b show ?thesis by blast
qed

theorem sequential_refines_report_spec_witness:
  "\<exists>w w1 w2. seq_reachable demo_store w \<and> world_step w (User (PersonClick demo_jane)) = Some w1 \<and>
     drain w1 = Some w2 \<and> view_of w2 = report_spec demo_store (view_of w) (PersonClick demo_jane) \<and>
     view_of w2 = \<lparr>v_area = ''a1'', v_person = ''p1'', v_records = [demo_debit_jan, demo_debit_feb]\<rparr>"
proof -
  have "\<exists>w0 w w1 w2. drain (init_world demo_store) = Some w0 \<and>
      seq_run w0 [AreaInput ''No'', AreaClick demo_north, ConnInput ''12''] = Some w \<and>
      world_step w (User (PersonClick demo_jane)) = Some w1 \<and> drain w1 = Some w2 \<and>
      selectedArea (scr (w_sys w)) = ''a1''"
    by (simp add: eval_simps drain.simps)
  then obtain w0 w w1 w2 where d0: "drain (init_world demo_store) = Some w0"
    and sr: "seq_run w0 [AreaInput ''No'', AreaClick demo_north, ConnInput ''12''] = Some w"
    and ws: "world_step w (User (PersonClick demo_jane)) = Some w1" and d: "drain w1 = Some w2"
    and a: "selectedArea (scr (w_sys w)) = ''a1''"
    by blast
  have reach: "seq_reachable demo_store w"
    by (rule seq_run_reachable [OF seq_reachable.start [OF d0] sr])
  from sequential_refines_report_spec [OF reach ws d]
  have v: "view_of w2 = report_spec demo_store (view_of w) (PersonClick demo_jane)" .
  also have "\<dots> = \<lparr>v_area = ''a1'', v_person = ''p1'', v_records = [demo_debit_jan, demo_debit_feb]\<rparr>"
    using a by (simp add: view_of_def screen_view_def eval_simps)
  finally show ?thesis using reach ws d v by blast
qed

theorem failures_refine_report_rel_witness:
  "\<exists>w w1 w2. seqf_reachable demo_store w \<and> world_step w (User (PersonClick demo_jane)) = Some w1 \<and>
     fdrain [False, True] w1 = Some w2 \<and>
     report_rel demo_store True (view_of w) (PersonClick demo_jane) (view_of w2) \<and>
     view_of w2 = \<lparr>v_area = ''a1'', v_person = ''p1'', v_records = []\<rparr>"
proof -
  have "\<exists>w0 w w1 w2. fdrain [] (init_world demo_store) = Some w0 \<and>
      seqf_run w0 [(AreaInput ''No'', []), (AreaClick demo_north, []), (ConnInput ''12'', [])] = Some w \<and>
      world_step w (User (PersonClick demo_jane)) = Some w1 \<and> fdrain [False, True] w1 = Some w2 \<and>
      view_of w2 = \<lparr>v_area = ''a1'', v_person = ''p1'', v_records = []\<rparr>"
    by (simp add: eval_simps fdrain.simps view_of_def screen_view_def)
  then obtain w0 w w1 w2 where d0: "fdrain [] (init_world demo_store) = Some w0"
    and sr: "seqf_run w0 [(AreaInput ''No'', []), (AreaClick demo_north, []), (ConnInput ''12'', [])] = Some w"
    and ws: "world_step w (User (PersonClick demo_jane)) = Some w1" and d: "fdrain [False, True] w1 = Some w2"
    and v: "view_of w2 = \<lparr>v_area = ''a1'', v_person = ''p1'', v_records = []\<rparr>"
    by blast
  have reach: "seqf_reachable demo_store w"
    by (rule seqf_run_reachable [OF seqf_reachable.start [OF d0] sr])
  from failures_refine_report_rel [OF reach ws d]
  have "report_rel demo_store True (view_of w) (PersonClick demo_jane) (view_of w2)" by simp
  with reach ws d v show ?thesis by blast
qed

theorem inputs_string_typed_witness:
  "\<exists>w. world_reachable demo_store w \<and>
     list_all (\<lambda>a. string_named (a_name a)) (st_areas demo_store) \<and>
     list_all (\<lambda>p. string_named (p_name p)) (st_persons demo_store) \<and>
     is_jstr (areaQuery (scr (w_sys w))) \<and> is_jstr (selectedPersonName (scr (w_sys w))) \<and>
     selectedPersonName (scr (w_sys w)) = JStr ''Jane Doe''"
proof -
  have "\<exists>w. world_run (init_world demo_store) report_session = Some w \<and>
      selectedPersonName (scr (w_sys w)) = JStr ''Jane Doe''"
    by (simp add: eval_simps)
  then obtain w where run: "world_run (init_world demo_store) report_session = Some w"
    and n: "selectedPersonName (scr (w_sys w)) = JStr ''Jane Doe''" by blast
  have reach: "world_reachable demo_store w"
    by (rule world_run_reachable [OF world_reachable.init run])
  have wfA: "list_all (\<lambda>a. string_named (a_name a)) (st_areas demo_store)"
    and wfP: "list_all (\<lambda>p. string_named (p_name p)) (st_persons demo_store)"
    by (simp_all add: eval_simps string_named_def)
  from inputs_string_typed [OF reach wfA wfP] reach wfA wfP n show ?thesis by blast
qed

theorem sequential_page_shows_records_witness:
  "\<exists>w v. seq_reachable demo_store w \<and> selectedPersonId (scr (w_sys w)) = ''p1'' \<and>
     render_page plain_fmt (scr (w_sys w)) = MainView v \<and>
     mv_records v = RecordRows [(''2024-01'', ''$100.50'', ''-''), (''2024-02'', ''$75.00'', ''-'')]"
proof -
  obtain w where reach: "seq_reachable demo_store w" and b: "selectedPersonId (scr (w_sys w)) = ''p1''"
    using demo_seq_session by blast
  from sequential_page_shows_records [OF reach, of plain_fmt] b obtain v
    where rv: "render_page plain_fmt (scr (w_sys w)) = MainView v"
      and mv: "mv_records v = RecordRows [(''2024-01'', ''$100.50'', ''-''), (''2024-02'', ''$75.00'', ''-'')]"
    by (auto simp: eval_simps Let_def)
  with reach b show ?thesis by blast
qed

theorem report_reachable_witness:
  "\<exists>w. seq_reachable demo_store w \<and>
     view_of w = \<lparr>v_area = ''a1'', v_person = ''p1'', v_records = [demo_debit_jan, demo_debit_feb]\<rparr>"
proof -
  have avail: "st_available demo_store" and aid: "a_id demo_north \<noteq> []"
    and lab: "area_label demo_north \<noteq> []"
    and inA: "demo_north \<in> set (area_filter (st_areas demo_store) (area_label demo_north))"
    and pid: "p_id demo_jane \<noteq> []" and cl: "conn_label demo_jane \<noteq> []"
    and inP: "demo_jane \<in> set (person_filter (get_persons_by_area demo_store (a_id demo_north))
                (conn_label demo_jane))"
    by (simp_all add: eval_simps)
  from report_reachable [OF avail aid lab inA pid cl inP] obtain w
    where r: "seq_reachable demo_store w"
      and v: "view_of w = \<lparr>v_area = a_id demo_north, v_person = p_id demo_jane,
                           v_records = find_docs demo_store (p_id demo_jane)\<rparr>"
    by blast
  have "\<lparr>v_area = a_id demo_north, v_person = p_id demo_jane,
         v_records = find_docs demo_store (p_id demo_jane)\<rparr> =
        \<lparr>v_area = ''a1'', v_person = ''p1'', v_records = [demo_debit_jan, demo_debit_feb]\<rparr>"
    by (simp add: eval_simps)
  with r v show ?thesis by auto
qed

theorem area_keys_distinct_witness:
  "\<exists>w v. world_reachable demo_store w \<and> distinct (map a_id (st_areas demo_store)) \<and>
     render_page plain_fmt (scr (w_sys w)) = MainView v \<and>
     distinct (map fst (mv_area_items v)) \<and> mv_area_items v = [(''a1'', ''North'')]"
proof -
  have "\<exists>w v. world_run (init_world demo_store) [Answer 0, Answer 0, User (AreaInput ''No'')] = Some w \<and>
      render_page plain_fmt (scr (w_sys w)) = MainView v \<and> mv_area_items v = [(''a1'', ''North'')]"
    by (simp add: eval_simps)
  then obtain w v where run: "world_run (init_world demo_store) [Answer 0, Answer 0, User (AreaInput ''No'')] = Some w"
    and rv: "render_page plain_fmt (scr (w_sys w)) = MainView v" and it: "mv_area_items v = [(''a1'', ''North'')]"
    by blast
  have reach: "world_reachable demo_store w"
    by (rule world_run_reachable [OF world_reachable.init run])
  have ids: "distinct (map a_id (st_areas demo_store))" by (simp add: eval_simps)
  from area_keys_distinct [OF reach ids rv] reach ids rv it show ?thesis by blast
qed

theorem sequential_person_click_page_witness:
  "\<exists>w w1 w2 v. seq_reachable demo_store w \<and> world_step w (User (PersonClick demo_jane)) = Some w1 \<and>
     drain w1 = Some w2 \<and> render_page plain_fmt (scr (w_sys w2)) = MainView v \<and>
     mv_conn_value v = ''12345'' \<and> mv_person_value v = ''Jane Doe'' \<and>
     mv_records v = records_view plain_fmt [demo_debit_jan, demo_debit_feb]"
proof -
  have "\<exists>w0 w w1 w2. drain (init_world demo_store) = Some w0 \<and>
      seq_run w0 [AreaInput ''No'', AreaClick demo_north, ConnInput ''12''] = Some w \<and>
      world_step w (User (PersonClick demo_jane)) = Some w1 \<and> drain w1 = Some w2 \<and>
      selectedArea (scr (w_sys w)) = ''a1''"
    by (simp add: eval_simps drain.simps)
  then obtain w0 w w1 w2 where d0: "drain (init_world demo_store) = Some w0"
    and sr: "seq_run w0 [AreaInput ''No'', AreaClick demo_north, ConnInput ''12''] = Some w"
    and ws: "world_step w (User (PersonClick demo_jane)) = Some w1" and d: "drain w1 = Some w2"
    and a: "selectedArea (scr (w_sys w)) = ''a1''"
    by blast
  have reach: "seq_reachable demo_store w"
    by (rule seq_run_reachable [OF seq_reachable.start [OF d0] sr])
  have sa: "selectedArea (scr (w_sys w)) \<noteq> []" using a by simp
  have uniq: "distinct (map p_id (st_persons demo_store))" by (simp add: eval_simps)
  have pid: "p_id demo_jane \<noteq> []" by (simp add: eval_simps)
  from sequential_person_click_page [OF reach ws d sa uniq pid, of plain_fmt]
  obtain v where "render_page plain_fmt (scr (w_sys w2)) = MainView v"
    and "mv_conn_value v = conn_label demo_jane" and "mv_person_value v = name_label demo_jane"
    and "mv_records v = records_view plain_fmt (find_docs demo_store (p_id demo_jane))"
    by blast
  moreover have "conn_label demo_jane = ''12345''" and "name_label demo_jane = ''Jane Doe''"
    and "find_docs demo_store (p_id demo_jane) = [demo_debit_jan, demo_debit_feb]"
    by (simp_all add: eval_simps)
  ultimately have "render_page plain_fmt (scr (w_sys w2)) = MainView v \<and>
     mv_conn_value v = ''12345'' \<and> mv_person_value v = ''Jane Doe'' \<and>
     mv_records v = records_view plain_fmt [demo_debit_jan, demo_debit_feb]" by simp
  with reach ws d show ?thesis by blast
qed

theorem sequential_conn_keys_distinct_witness:
  "\<exists>w v. seq_reachable demo_store w \<and> selectedArea (scr (w_sys w)) = ''a1'' \<and>
     render_page plain_fmt (scr (w_sys w)) = MainView v \<and>
     distinct (map ci_key (mv_conn_items v)) \<and> map ci_key (mv_conn_items v) = [''p1'']"
proof -
  have "\<exists>w0 w. drain (init_world demo_store) = Some w0 \<and>
      seq_run w0 [AreaInput ''No'', AreaClick demo_north, ConnInput ''12''] = Some w \<and>
      selectedArea (scr (w_sys w)) = ''a1'' \<and>
      (\<exists>v. render_page plain_fmt (scr (w_sys w)) = MainView v \<and> map ci_key (mv_conn_items v) = [''p1''])"
    by (simp add: eval_simps drain.simps)
  then obtain w0 w v where d0: "drain (init_world demo_store) = Some w0"
    and sr: "seq_run w0 [AreaInput ''No'', AreaClick demo_north, ConnInput ''12''] = Some w"
    and a: "selectedArea (scr (w_sys w)) = ''a1''"
    and rv: "render_page plain_fmt (scr (w_sys w)) = MainView v" and k: "map ci_key (mv_conn_items v) = [''p1'']"
    by (elim exE conjE) (rule that)
  have reach: "seq_reachable demo_store w"
    by (rule seq_run_reachable [OF seq_reachable.start [OF d0] sr])
  have uniq: "distinct (map p_id (st_persons demo_store))" by (simp add: eval_simps)
  have sa: "selectedArea (scr (w_sys w)) \<noteq> []" using a by simp
  from sequential_conn_keys_distinct [OF reach uniq sa rv]
  have "distinct (map ci_key (mv_conn_items v))" .
  with reach a rv k show ?thesis by (intro exI conjI)
qed

theorem seqf_conn_list_matches_text_witness:
  "\<exists>w v. seqf_reachable demo_store w \<and> selectedArea (scr (w_sys w)) = [] \<and>
     render_page plain_fmt (scr (w_sys w)) = MainView v \<and>
     mv_conn_value v = ''B'' \<and> mv_conn_items v = [conn_item_of demo_bob] \<and>
     mv_conn_items v = map conn_item_of (search_persons demo_store (mv_conn_value v))"
proof -
  have "\<exists>w0 w. fdrain [] (init_world demo_store) = Some w0 \<and>
      seqf_run w0 [(ConnInput ''J'', [True]), (ConnInput ''B'', [])] = Some w \<and>
      selectedArea (scr (w_sys w)) = [] \<and>
      (\<exists>v. render_page plain_fmt (scr (w_sys w)) = MainView v \<and>
        mv_conn_value v = ''B'' \<and> mv_conn_items v = [conn_item_of demo_bob])"
    by (simp add: eval_simps fdrain.simps)
  then obtain w0 w v where d0: "fdrain [] (init_world demo_store) = Some w0"
    and sr: "seqf_run w0 [(ConnInput ''J'', [True]), (ConnInput ''B'', [])] = Some w"
    and a: "selectedArea (scr (w_sys w)) = []"
    and rv: "render_page plain_fmt (scr (w_sys w)) = MainView v"
    and vals: "mv_conn_value v = ''B''" "mv_conn_items v = [conn_item_of demo_bob]"
    by (elim exE conjE) (rule that)
  have reach: "seqf_reachable demo_store w"
    by (rule seqf_run_reachable [OF seqf_reachable.start [OF d0] sr])
  from seqf_conn_list_matches_text [OF reach rv] a vals
  have "mv_conn_items v = map conn_item_of (search_persons demo_store (mv_conn_value v))"
    by auto
  with reach a rv vals show ?thesis by (intro exI conjI)
qed

end
